theory Spec2Isabelle
  imports Complex_Main
begin

section \<open>The shared action model (lib/action_model.cjs)\<close>

text \<open>
  The engine's numbers are JavaScript numbers. Chip amounts start as integers and are
  only added, subtracted, compared and halved a bounded number of times per hand, so they
  are modelled as exact reals. Probabilities, equities and regrets are modelled as reals
  too: what is proved about them holds for the exact arithmetic that the floating-point
  code approximates. Console warnings and the diagnostic counters touched by
  \<open>warnDiag\<close> change no game state and are left out.
\<close>

subsection \<open>Actions\<close>

datatype action = FOLD | CHECK | CALL | BET_HALF | BET_POT | RAISE_HALF | RAISE_POT | ALL_IN

fun action_index :: "action \<Rightarrow> nat" where
  "action_index FOLD = 0"
| "action_index CHECK = 1"
| "action_index CALL = 2"
| "action_index BET_HALF = 3"
| "action_index BET_POT = 4"
| "action_index RAISE_HALF = 5"
| "action_index RAISE_POT = 6"
| "action_index ALL_IN = 7"

fun actionNames :: "action \<Rightarrow> string" where
  "actionNames FOLD = ''FOLD''"
| "actionNames CHECK = ''CHECK''"
| "actionNames CALL = ''CALL''"
| "actionNames BET_HALF = ''BET_HALF_POT''"
| "actionNames BET_POT = ''BET_POT''"
| "actionNames RAISE_HALF = ''RAISE_HALF_POT''"
| "actionNames RAISE_POT = ''RAISE_POT''"
| "actionNames ALL_IN = ''ALL_IN''"

subsection \<open>Seats and two-element arrays\<close>

text \<open>
  The game is heads-up: \<open>toAct\<close> is 0 or 1 and \<open>commit\<close>, \<open>stack\<close>, \<open>acted\<close> are
  arrays of length two. \<open>other p\<close> is the source's \<open>1 - p\<close>.
\<close>

datatype seat = Seat0 | Seat1

fun other :: "seat \<Rightarrow> seat" where
  "other Seat0 = Seat1"
| "other Seat1 = Seat0"

fun seat_index :: "seat \<Rightarrow> int" where
  "seat_index Seat0 = 0"
| "seat_index Seat1 = 1"

fun sel :: "seat \<Rightarrow> 'a \<times> 'a \<Rightarrow> 'a" where
  "sel Seat0 (a, b) = a"
| "sel Seat1 (a, b) = b"

fun upd :: "seat \<Rightarrow> 'a \<Rightarrow> 'a \<times> 'a \<Rightarrow> 'a \<times> 'a" where
  "upd Seat0 v (a, b) = (v, b)"
| "upd Seat1 v (a, b) = (a, v)"

subsection \<open>Hand state and configuration\<close>

record state =
  streetIdx :: nat
  street :: "string option"
  pot :: real
  currentBet :: real
  commit :: "real \<times> real"
  stack :: "real \<times> real"
  raises :: int
  consecutiveChecks :: nat
  acted :: "bool \<times> bool"
  history :: string
  terminal :: bool
  winner :: int
  toAct :: seat

record config =
  START_STACK :: real
  SMALL_BLIND :: real
  BIG_BLIND :: real
  MAX_RAISES :: int

definition default_config :: config where
  "default_config = \<lparr>START_STACK = 200, SMALL_BLIND = 1, BIG_BLIND = 2, MAX_RAISES = 3\<rparr>"

definition eps :: real where
  "eps = 1 / 10 ^ 9"

definition streets :: "string list" where
  "streets = [''preflop'', ''flop'', ''turn'', ''river'']"

text \<open>\<open>streets[i]\<close>, which is \<open>undefined\<close> past the river.\<close>

definition street_name :: "nat \<Rightarrow> string option" where
  "street_name i = (if i < length streets then Some (streets ! i) else None)"

subsection \<open>Legal actions and target totals\<close>

definition toCall_of :: "state \<Rightarrow> seat \<Rightarrow> real" where
  "toCall_of s p = max 0 (currentBet s - sel p (commit s))"

definition legalActionsShared :: "state \<Rightarrow> int \<Rightarrow> real \<Rightarrow> action list" where
  "legalActionsShared s maxRaises bigBlind =
     (if terminal s then []
      else
        let p = toAct s;
            toCall = max 0 (currentBet s - sel p (commit s));
            stk = sel p (stack s);
            unopened = (toCall \<le> eps);
            isPreflop = (streetIdx s = 0)
        in if unopened then
             [CHECK] @
             (if stk > eps
              then (if isPreflop then [RAISE_HALF, RAISE_POT, ALL_IN]
                    else [BET_HALF, BET_POT, ALL_IN])
              else [])
           else
             [FOLD, CALL] @
             (if stk > toCall + eps \<and> raises s < maxRaises then [RAISE_HALF, RAISE_POT] else []) @
             (if stk > toCall + eps then [ALL_IN] else []))"

definition actionTargetShared :: "state \<Rightarrow> action \<Rightarrow> real \<Rightarrow> real" where
  "actionTargetShared s act bigBlind =
     (let p = toAct s;
          toCall = max 0 (currentBet s - sel p (commit s));
          isPreflop = (streetIdx s = 0)
      in case act of
           FOLD \<Rightarrow> sel p (commit s)
         | CHECK \<Rightarrow> sel p (commit s)
         | CALL \<Rightarrow> sel p (commit s) + min (sel p (stack s)) toCall
         | BET_HALF \<Rightarrow> sel p (commit s) + min (sel p (stack s)) (max 1 (pot s * (1 / 2)))
         | BET_POT \<Rightarrow> sel p (commit s) + min (sel p (stack s)) (max 1 (pot s))
         | RAISE_HALF \<Rightarrow>
             (let desired = (if isPreflop then max (toCall * 2) (bigBlind * 2)
                             else max toCall (max 1 (pot s * (1 / 2))))
              in currentBet s + min (sel p (stack s)) desired)
         | RAISE_POT \<Rightarrow>
             (let desired = (if isPreflop then max (toCall * 3) (bigBlind * 3)
                             else max toCall (max 1 (pot s)))
              in currentBet s + min (sel p (stack s)) desired)
         | ALL_IN \<Rightarrow> sel p (commit s) + sel p (stack s))"

section \<open>The server's game (server_fullgame.cjs)\<close>

subsection \<open>Applying an action\<close>

definition legalActions :: "config \<Rightarrow> state \<Rightarrow> action list" where
  "legalActions cfg s = legalActionsShared s (MAX_RAISES cfg) (BIG_BLIND cfg)"

definition actionTarget :: "config \<Rightarrow> state \<Rightarrow> action \<Rightarrow> real" where
  "actionTarget cfg s act = actionTargetShared s act (BIG_BLIND cfg)"

text \<open>The history letter of a chip-moving action: \<open>actionNames[act][0].toLowerCase()\<close>.\<close>

fun history_letter :: "action \<Rightarrow> string" where
  "history_letter FOLD = ''f''"
| "history_letter CHECK = ''c''"
| "history_letter CALL = ''c''"
| "history_letter BET_HALF = ''b''"
| "history_letter BET_POT = ''b''"
| "history_letter RAISE_HALF = ''r''"
| "history_letter RAISE_POT = ''r''"
| "history_letter ALL_IN = ''a''"

definition applyAction :: "config \<Rightarrow> state \<Rightarrow> action \<Rightarrow> state" where
  "applyAction cfg s act0 =
     (let p = toAct s;
          opp = other p;
          toCall = max 0 (currentBet s - sel p (commit s));
          act = (if act0 = CALL \<and> toCall \<le> eps then CHECK else act0);
          target = actionTarget cfg s act
      in if act = FOLD then
           s\<lparr>terminal := True, winner := seat_index opp,
             history := history s @ ''f'', acted := upd p True (acted s)\<rparr>
         else if act = CHECK then
           s\<lparr>history := history s @ ''k'',
             consecutiveChecks := consecutiveChecks s + 1,
             toAct := opp, acted := upd p True (acted s)\<rparr>
         else
           let pay = target - sel p (commit s);
               realPay = min pay (sel p (stack s));
               s1 = s\<lparr>stack := upd p (sel p (stack s) - realPay) (stack s),
                      commit := upd p (sel p (commit s) + realPay) (commit s),
                      pot := pot s + realPay,
                      consecutiveChecks := 0,
                      history := history s @ history_letter act\<rparr>
           in if act = CALL \<or> act = ALL_IN then
                (let s2 = s1\<lparr>acted := upd p True (acted s1)\<rparr>;
                     s3 = (if sel p (commit s2) > currentBet s2
                           then s2\<lparr>currentBet := sel p (commit s2),
                                   raises := raises s2 + 1,
                                   acted := upd p True (False, False)\<rparr>
                           else s2)
                 in s3\<lparr>toAct := opp\<rparr>)
              else
                s1\<lparr>currentBet := sel p (commit s1),
                   raises := raises s1 + 1,
                   acted := upd p True (False, False),
                   toAct := opp\<rparr>)"

text \<open>The state of a freshly dealt hand, blinds posted (the \<open>state\<close> object of \<open>newHand\<close>).\<close>

definition newHand_state :: "config \<Rightarrow> state" where
  "newHand_state cfg =
     \<lparr>streetIdx = 0,
      street = Some ''preflop'',
      pot = SMALL_BLIND cfg + BIG_BLIND cfg,
      currentBet = BIG_BLIND cfg,
      commit = (SMALL_BLIND cfg, BIG_BLIND cfg),
      stack = (START_STACK cfg - SMALL_BLIND cfg, START_STACK cfg - BIG_BLIND cfg),
      raises = 0,
      consecutiveChecks = 0,
      acted = (False, False),
      history = [],
      terminal = False,
      winner = - 1,
      toAct = Seat0\<rparr>"

subsection \<open>Sessions, street advance and settlement\<close>

type_synonym card = string

record score =
  wins :: nat
  losses :: nat
  ties :: nat
  net :: real

record result =
  label :: string
  human_payoff :: real
  result_winner :: int
  terminal_type :: string
  final_stacks :: "real \<times> real"

record belief =
  weak :: real
  medium :: real
  strong :: real

record sess =
  humanSeat :: seat
  handIndex :: nat
  hero :: "card list"
  vill :: "card list"
  board :: "card list"
  fullBoard :: "card list"
  state :: state
  resolved :: bool
  lastResult :: "result option"
  rangeBeliefs :: "belief list"
  score :: score

definition initialRangeBelief :: belief where
  "initialRangeBelief = \<lparr>weak = 34 / 100, medium = 33 / 100, strong = 33 / 100\<rparr>"

text \<open>
  \<open>newHand\<close>: the shuffled deck is random, so the nine dealt cards are arguments. The
  source's object has no \<open>score\<close> yet; both callers assign it right after the call
  (\<open>/api/new_game\<close> a zero score, \<open>/api/new_hand\<close> the session's score), so it is an
  argument too.
\<close>

definition newHand :: "config \<Rightarrow> seat \<Rightarrow> nat \<Rightarrow> card list \<Rightarrow> card list \<Rightarrow> card list \<Rightarrow> score \<Rightarrow> sess" where
  "newHand cfg hSeat hIndex heroCards villCards boardCards sc =
     \<lparr>humanSeat = hSeat,
      handIndex = hIndex,
      hero = heroCards,
      vill = villCards,
      board = [],
      fullBoard = boardCards,
      state = newHand_state cfg,
      resolved = False,
      lastResult = None,
      rangeBeliefs = [initialRangeBelief, initialRangeBelief],
      score = sc\<rparr>"

text \<open>\<open>[0, 3, 4, 5][streetIdx] || 0\<close>\<close>

definition expected_board_length :: "nat \<Rightarrow> nat" where
  "expected_board_length i = (if i = 1 then 3 else if i = 2 then 4 else if i = 3 then 5 else 0)"

definition enforceBoardInvariant :: "sess \<Rightarrow> sess" where
  "enforceBoardInvariant ss =
     (let expected = expected_board_length (streetIdx (state ss))
      in if length (board ss) \<noteq> expected
         then ss\<lparr>board := take expected (fullBoard ss)\<rparr>
         else ss)"

definition advanceStreet :: "sess \<Rightarrow> sess" where
  "advanceStreet ss =
     (let idx = streetIdx (state ss) + 1;
          ss1 = ss\<lparr>state := (state ss)\<lparr>streetIdx := idx, street := street_name idx\<rparr>\<rparr>;
          ss2 = (if idx = 1 then ss1\<lparr>board := take 3 (fullBoard ss1)\<rparr>
                 else if idx = 2 then ss1\<lparr>board := take 4 (fullBoard ss1)\<rparr>
                 else if idx = 3 then ss1\<lparr>board := take 5 (fullBoard ss1)\<rparr>
                 else ss1);
          ss3 = enforceBoardInvariant ss2
      in ss3\<lparr>state := (state ss3)\<lparr>currentBet := 0,
                                    commit := (0, 0),
                                    raises := 0,
                                    consecutiveChecks := 0,
                                    acted := (False, False),
                                    toAct := Seat0\<rparr>\<rparr>)"

definition needsStreetAdvance :: "sess \<Rightarrow> bool" where
  "needsStreetAdvance ss =
     (let s = state ss;
          evenCommit = (\<bar>sel Seat0 (commit s) - sel Seat1 (commit s)\<bar> \<le> eps \<and>
                        max (currentBet s - sel (toAct s) (commit s)) 0 \<le> eps);
          bothActed = (sel Seat0 (acted s) \<and> sel Seat1 (acted s))
      in evenCommit \<and> bothActed)"

definition bettingClosedAllIn :: "sess \<Rightarrow> bool" where
  "bettingClosedAllIn ss =
     (let s = state ss;
          s0AllIn = (sel Seat0 (stack s) \<le> eps);
          s1AllIn = (sel Seat1 (stack s) \<le> eps)
      in if \<not> (s0AllIn \<or> s1AllIn) then False
         else max 0 (currentBet s - sel Seat0 (commit s)) \<le> eps \<and>
              max 0 (currentBet s - sel Seat1 (commit s)) \<le> eps)"

text \<open>
  \<open>Number(x.toFixed(d))\<close> on an exact value: the nearest multiple of \<open>10^-d\<close>, a tie
  going away from zero.
\<close>

definition toFixed :: "nat \<Rightarrow> real \<Rightarrow> real" where
  "toFixed d x = sgn x * (of_int \<lfloor>\<bar>x\<bar> * 10 ^ d + 1 / 2\<rfloor> / 10 ^ d)"

text \<open>
  \<open>settleTerminal\<close>. \<open>PokerEvaluator.evalHand(cards).value\<close> comes from an external
  package and is the parameter \<open>evalHand\<close>. The function returns the result and the
  updated session.
\<close>

definition settleTerminal :: "config \<Rightarrow> (card list \<Rightarrow> int) \<Rightarrow> sess \<Rightarrow> result \<times> sess" where
  "settleTerminal cfg evalHand ss =
     (case (if resolved ss then lastResult ss else None) of
        Some r \<Rightarrow> (r, ss)
      | None \<Rightarrow>
         (let wasFold = (history (state ss) \<noteq> [] \<and> last (history (state ss)) = CHR ''f'');
              w0 = winner (state ss);
              w = (if w0 \<noteq> 0 \<and> w0 \<noteq> 1
                   then (let b = take 5 (fullBoard ss);
                             p0 = evalHand (hero ss @ b);
                             p1 = evalHand (vill ss @ b)
                         in if p0 > p1 then 0 else if p1 > p0 then 1 else - 1)
                   else w0);
              ss1 = (if w0 \<noteq> 0 \<and> w0 \<noteq> 1 then ss\<lparr>state := (state ss)\<lparr>winner := w\<rparr>\<rparr> else ss);
              st = stack (state ss1);
              finalStacks =
                (if w = 0 then upd Seat0 (sel Seat0 st + pot (state ss1)) st
                 else if w = 1 then upd Seat1 (sel Seat1 st + pot (state ss1)) st
                 else (sel Seat0 st + pot (state ss1) * (1 / 2),
                       sel Seat1 st + pot (state ss1) * (1 / 2)));
              humanEV = sel (humanSeat ss1) finalStacks - START_STACK cfg;
              sc = score ss1;
              sc1 = sc\<lparr>net := net sc + humanEV\<rparr>;
              sc2 = (if humanEV > eps then sc1\<lparr>wins := wins sc1 + 1\<rparr>
                     else if humanEV < - eps then sc1\<lparr>losses := losses sc1 + 1\<rparr>
                     else sc1\<lparr>ties := ties sc1 + 1\<rparr>);
              res = \<lparr>label = (if humanEV > 0 then ''You win''
                                else if humanEV < 0 then ''You lose'' else ''Tie''),
                     human_payoff = toFixed 2 humanEV,
                     result_winner = w,
                     terminal_type = (if wasFold then ''fold'' else ''showdown''),
                     final_stacks = (toFixed 2 (fst finalStacks), toFixed 2 (snd finalStacks))\<rparr>
          in (res, ss1\<lparr>score := sc2, resolved := True, lastResult := Some res\<rparr>)))"

subsection \<open>Opponent range belief\<close>

definition normalizeRangeBelief :: "belief \<Rightarrow> belief" where
  "normalizeRangeBelief b =
     (let w = max 0 (weak b);
          m = max 0 (medium b);
          st = max 0 (strong b);
          s = w + m + st
      in if s \<le> eps
         then \<lparr>weak = 34 / 100, medium = 33 / 100, strong = 33 / 100\<rparr>
         else \<lparr>weak = w / s, medium = m / s, strong = st / s\<rparr>)"

definition ensureRangeBeliefs :: "sess \<Rightarrow> sess" where
  "ensureRangeBeliefs ss =
     (let bs0 = (if length (rangeBeliefs ss) < 2
                 then [initialRangeBelief, initialRangeBelief]
                 else rangeBeliefs ss);
          bs1 = bs0[0 := normalizeRangeBelief (bs0 ! 0)];
          bs2 = bs1[1 := normalizeRangeBelief (bs1 ! 1)]
      in ss\<lparr>rangeBeliefs := bs2\<rparr>)"

text \<open>The index of a seat into \<open>rangeBeliefs\<close>.\<close>

definition seat_nat :: "seat \<Rightarrow> nat" where
  "seat_nat p = nat (seat_index p)"

definition isAggressive :: "action \<Rightarrow> bool" where
  "isAggressive act =
     (act = BET_HALF \<or> act = BET_POT \<or> act = RAISE_HALF \<or> act = RAISE_POT \<or> act = ALL_IN)"

text \<open>The if-chain of \<open>updateRangeBeliefFromAction\<close> that shifts the copied belief.\<close>

definition shiftBelief :: "belief \<Rightarrow> action \<Rightarrow> real \<Rightarrow> belief" where
  "shiftBelief b act toCallBefore =
     (let facingBet = (toCallBefore > eps)
      in if facingBet then
           (if act = FOLD then
              b\<lparr>weak := weak b + 20 / 100, medium := medium b + 4 / 100, strong := strong b - 24 / 100\<rparr>
            else if act = CALL \<or> act = CHECK then
              b\<lparr>weak := weak b - 5 / 100, medium := medium b + 12 / 100, strong := strong b - 7 / 100\<rparr>
            else if isAggressive act then
              b\<lparr>weak := weak b - 16 / 100, medium := medium b - 4 / 100, strong := strong b + 20 / 100\<rparr>
            else b)
         else
           (if act = CHECK then
              b\<lparr>weak := weak b + 10 / 100, medium := medium b + 2 / 100, strong := strong b - 12 / 100\<rparr>
            else if isAggressive act then
              b\<lparr>weak := weak b - 12 / 100, medium := medium b - 2 / 100, strong := strong b + 14 / 100\<rparr>
            else b))"

definition updateRangeBeliefFromAction :: "sess \<Rightarrow> seat \<Rightarrow> action \<Rightarrow> real \<Rightarrow> sess" where
  "updateRangeBeliefFromAction ss p act toCallBefore =
     (let ss1 = ensureRangeBeliefs ss;
          beliefs = rangeBeliefs ss1;
          b = shiftBelief (beliefs ! seat_nat p) act toCallBefore
      in ss1\<lparr>rangeBeliefs := beliefs[seat_nat p := normalizeRangeBelief b]\<rparr>)"



section \<open>Infoset keying (lib/infoset_v1.cjs)\<close>

subsection \<open>JavaScript numbers that may be non-finite\<close>

text \<open>
  Hand strength and SPR reach the infoset keyer as arbitrary numbers, so they are
  modelled with the non-finite values. \<open>js_lt\<close> is \<open><\<close>, \<open>js_min\<close> and \<open>js_max\<close> are
  \<open>Math.min\<close> and \<open>Math.max\<close>, \<open>js_floor\<close> is \<open>Math.floor\<close>, \<open>js_mul\<close> is \<open>*\<close>,
  \<open>js_or_zero x\<close> is \<open>x || 0\<close> and \<open>js_isFinite\<close> is \<open>Number.isFinite\<close>.
\<close>

datatype jsnum = Num real | PosInf | NegInf | NaN

fun js_lt :: "jsnum \<Rightarrow> jsnum \<Rightarrow> bool" where
  "js_lt NaN y = False"
| "js_lt x NaN = False"
| "js_lt (Num a) (Num b) = (a < b)"
| "js_lt x NegInf = False"
| "js_lt NegInf y = True"
| "js_lt PosInf y = False"
| "js_lt (Num a) PosInf = True"

definition js_min :: "jsnum \<Rightarrow> jsnum \<Rightarrow> jsnum" where
  "js_min x y = (if x = NaN \<or> y = NaN then NaN else if js_lt y x then y else x)"

definition js_max :: "jsnum \<Rightarrow> jsnum \<Rightarrow> jsnum" where
  "js_max x y = (if x = NaN \<or> y = NaN then NaN else if js_lt x y then y else x)"

fun js_floor :: "jsnum \<Rightarrow> jsnum" where
  "js_floor (Num a) = Num (of_int \<lfloor>a\<rfloor>)"
| "js_floor x = x"

fun js_mul :: "jsnum \<Rightarrow> jsnum \<Rightarrow> jsnum" where
  "js_mul NaN y = NaN"
| "js_mul x NaN = NaN"
| "js_mul (Num a) (Num b) = Num (a * b)"
| "js_mul (Num a) PosInf = (if a = 0 then NaN else if a > 0 then PosInf else NegInf)"
| "js_mul (Num a) NegInf = (if a = 0 then NaN else if a > 0 then NegInf else PosInf)"
| "js_mul PosInf (Num b) = (if b = 0 then NaN else if b > 0 then PosInf else NegInf)"
| "js_mul NegInf (Num b) = (if b = 0 then NaN else if b > 0 then NegInf else PosInf)"
| "js_mul PosInf PosInf = PosInf"
| "js_mul NegInf NegInf = PosInf"
| "js_mul PosInf NegInf = NegInf"
| "js_mul NegInf PosInf = NegInf"

definition js_or_zero :: "jsnum \<Rightarrow> jsnum" where
  "js_or_zero x = (if x = NaN \<or> x = Num 0 then Num 0 else x)"

fun js_isFinite :: "jsnum \<Rightarrow> bool" where
  "js_isFinite (Num a) = True"
| "js_isFinite x = False"

subsection \<open>Printing numbers into a key\<close>

definition digit_char :: "nat \<Rightarrow> char" where
  "digit_char d = ''0123456789'' ! d"

function show_nat :: "nat \<Rightarrow> string" where
  "show_nat n = (if n < 10 then [digit_char n] else show_nat (n div 10) @ [digit_char (n mod 10)])"
  by pat_completeness auto
termination
  by (relation "measure (\<lambda>n. n)") auto

declare show_nat.simps [simp del]

text \<open>
  The string a template literal gives a number. Integers below \<open>10^21\<close> print as their
  decimal digits; other finite numbers print with a fraction or an exponent, which is not
  modelled: the result is \<open>None\<close> there.
\<close>

fun number_string :: "jsnum \<Rightarrow> string option" where
  "number_string NaN = Some ''NaN''"
| "number_string PosInf = Some ''Infinity''"
| "number_string NegInf = Some ''-Infinity''"
| "number_string (Num a) =
     (if a = of_int \<lfloor>a\<rfloor> \<and> \<bar>a\<bar> < 10 ^ 21
      then Some (if a < 0 then ''-'' @ show_nat (nat (- \<lfloor>a\<rfloor>)) else show_nat (nat \<lfloor>a\<rfloor>))
      else None)"

subsection \<open>Board texture, bands and the key\<close>

definition ranks :: string where
  "ranks = ''23456789TJQKA''"

text \<open>\<open>s[i]\<close> on a string: \<open>None\<close> is \<open>undefined\<close>.\<close>

definition char_at :: "string \<Rightarrow> nat \<Rightarrow> char option" where
  "char_at s i = (if i < length s then Some (s ! i) else None)"

text \<open>\<open>s.indexOf(c)\<close> for an optional character: \<open>-1\<close> when it does not occur.\<close>

fun index_from :: "char \<Rightarrow> string \<Rightarrow> int \<Rightarrow> int" where
  "index_from c [] i = - 1"
| "index_from c (x # xs) i = (if x = c then i else index_from c xs (i + 1))"

definition indexOf :: "string \<Rightarrow> char option \<Rightarrow> int" where
  "indexOf s c = (case c of None \<Rightarrow> - 1 | Some ch \<Rightarrow> index_from ch s 0)"

definition rankValue :: "card \<Rightarrow> int" where
  "rankValue cd = indexOf ranks (char_at cd 0) + 2"

text \<open>The number of keys of \<open>suitCounts(board)\<close>.\<close>

definition suitCounts_size :: "card list \<Rightarrow> nat" where
  "suitCounts_size b = length (remdups (map (\<lambda>cd. char_at cd 1) b))"

fun isPaired_from :: "char option list \<Rightarrow> card list \<Rightarrow> bool" where
  "isPaired_from seen [] = False"
| "isPaired_from seen (cd # cds) =
     (if char_at cd 0 \<in> set seen then True else isPaired_from (char_at cd 0 # seen) cds)"

definition isPaired :: "card list \<Rightarrow> bool" where
  "isPaired b = isPaired_from [] b"

definition isMonotone :: "card list \<Rightarrow> bool" where
  "isMonotone b = (if length b < 3 then False else suitCounts_size b = 1)"

definition isTwoTone :: "card list \<Rightarrow> bool" where
  "isTwoTone b = (if length b < 3 then False else suitCounts_size b = 2)"

text \<open>The loop of \<open>isConnected\<close> over the sorted distinct rank values.\<close>

fun closePairs :: "int list \<Rightarrow> nat" where
  "closePairs (x # y # zs) = (if y - x \<le> 2 then 1 else 0) + closePairs (y # zs)"
| "closePairs zs = 0"

definition isConnected :: "card list \<Rightarrow> bool" where
  "isConnected b =
     (if length b < 3 then False
      else let vals = sort (remdups (map rankValue b))
           in if length vals < 3 then False else closePairs vals \<ge> 2)"

record texture =
  paired :: bool
  twoTone :: bool
  monotone_tex :: bool
  connected_tex :: bool

definition texture_of :: "card list \<Rightarrow> texture" where
  "texture_of b =
     \<lparr>paired = isPaired b, twoTone = isTwoTone b,
      monotone_tex = isMonotone b, connected_tex = isConnected b\<rparr>"

definition bit_string :: "bool \<Rightarrow> string" where
  "bit_string v = (if v then ''1'' else ''0'')"

definition textureBits :: "texture \<Rightarrow> string" where
  "textureBits tex =
     bit_string (paired tex) @ bit_string (twoTone tex) @
     bit_string (monotone_tex tex) @ bit_string (connected_tex tex)"

definition sprBand :: "jsnum \<Rightarrow> string" where
  "sprBand spr =
     (if \<not> js_isFinite spr then ''8_plus''
      else if js_lt spr (Num 1) then ''0_1''
      else if js_lt spr (Num 2) then ''1_2''
      else if js_lt spr (Num 4) then ''2_4''
      else if js_lt spr (Num 8) then ''4_8''
      else ''8_plus'')"

definition hsBand :: "jsnum \<Rightarrow> jsnum" where
  "hsBand hs =
     (let clamped = js_max (Num 0) (js_min (Num (999999 / 1000000)) (js_or_zero hs))
      in js_max (Num 0) (js_min (Num 9) (js_floor (js_mul clamped (Num 10)))))"

definition positionLabelHU :: "seat \<Rightarrow> string" where
  "positionLabelHU player = (if seat_index player = 1 then ''IP'' else ''OOP'')"

definition resolveStreet :: "state \<Rightarrow> string" where
  "resolveStreet s =
     (case street s of
        Some nm \<Rightarrow> if nm \<noteq> [] then nm
                   else (case street_name (streetIdx s) of Some n \<Rightarrow> n | None \<Rightarrow> ''flop'')
      | None \<Rightarrow> (case street_name (streetIdx s) of Some n \<Rightarrow> n | None \<Rightarrow> ''flop''))"

text \<open>
  \<open>buildInfosetKey\<close>. \<open>stateBoard\<close> is \<open>state.board\<close> when the state object carries one
  (the trainer's does, the server's does not); \<open>spr\<close> and \<open>tex\<close> are \<open>None\<close> when the
  caller leaves them out. The key is \<open>None\<close> only where a number's printed form is not
  modelled.
\<close>

definition buildInfosetKey ::
  "state \<Rightarrow> card list option \<Rightarrow> seat \<Rightarrow> jsnum \<Rightarrow> jsnum option \<Rightarrow> texture option \<Rightarrow> string option" where
  "buildInfosetKey s stateBoard player hs spr tex =
     (let streetNm = resolveStreet s;
          toCall = max 0 (currentBet s - sel player (commit s));
          betState = (if toCall > eps then ''facingBet'' else ''unopened'');
          effectiveSpr =
            (case spr of
               None \<Rightarrow> (if pot s > 0 then Num (sel player (stack s) / max 1 (pot s)) else PosInf)
             | Some v \<Rightarrow> v);
          b = (case stateBoard of Some cards \<Rightarrow> cards | None \<Rightarrow> []);
          textureValue = (case tex of Some t \<Rightarrow> t | None \<Rightarrow> texture_of b);
          raisesNum = Num (of_int (max 0 (raises s)))
      in case (number_string raisesNum, number_string (hsBand hs)) of
           (Some r, Some h) \<Rightarrow>
             Some (streetNm @ ''|'' @ positionLabelHU player @ ''|tex='' @ textureBits textureValue @
                   ''|spr='' @ sprBand effectiveSpr @ ''|'' @ betState @ ''|r='' @ r @ ''|hs='' @ h)
         | _ \<Rightarrow> None)"

subsection \<open>Well-formed keys\<close>

text \<open>
  The canonical form
  \<open><street>|<position>|tex=<bits>|spr=<band>|<bet_state>|r=<raises>|hs=<band>\<close>.
\<close>

fun splitOn :: "char \<Rightarrow> string \<Rightarrow> string list" where
  "splitOn c [] = [[]]"
| "splitOn c (x # xs) =
     (if x = c then [] # splitOn c xs
      else (case splitOn c xs of w # ws \<Rightarrow> (x # w) # ws | [] \<Rightarrow> [[x]]))"

definition is_digit :: "char \<Rightarrow> bool" where
  "is_digit ch = (ch \<in> set ''0123456789'')"

definition sprBands :: "string list" where
  "sprBands = [''0_1'', ''1_2'', ''2_4'', ''4_8'', ''8_plus'']"

definition key_wf :: "string \<Rightarrow> bool" where
  "key_wf k =
     (case splitOn CHR ''|'' k of
        [st, pos, tx, sp, bet, r, h] \<Rightarrow>
          st \<in> set streets \<and>
          pos \<in> set [''IP'', ''OOP''] \<and>
          take 4 tx = ''tex='' \<and> length (drop 4 tx) = 4 \<and> set (drop 4 tx) \<subseteq> set ''01'' \<and>
          take 4 sp = ''spr='' \<and> drop 4 sp \<in> set sprBands \<and>
          bet \<in> set [''unopened'', ''facingBet''] \<and>
          take 2 r = ''r='' \<and> drop 2 r \<noteq> [] \<and> list_all is_digit (drop 2 r) \<and>
          take 3 h = ''hs='' \<and> length (drop 3 h) = 1 \<and> list_all is_digit (drop 3 h)
      | _ \<Rightarrow> False)"

text \<open>The street field of a state is unset, empty or one of the four street names.\<close>

definition street_ok :: "state \<Rightarrow> bool" where
  "street_ok s = (case street s of None \<Rightarrow> True | Some nm \<Rightarrow> nm = [] \<or> nm \<in> set streets)"

section \<open>The realtime subgame solver (server_fullgame.cjs)\<close>

text \<open>\<open>Number(priorProbs?.[a] || 0)\<close>: a missing prior or a missing entry counts as 0.\<close>

definition prior_at :: "real list option \<Rightarrow> action \<Rightarrow> real" where
  "prior_at priorProbs a =
     (case priorProbs of
        None \<Rightarrow> 0
      | Some ps \<Rightarrow> if action_index a < length ps then ps ! action_index a else 0)"

text \<open>In what follows \<open>xs.reduce((acc, v) => acc + v, 0)\<close> is written \<open>sum_list xs\<close>.\<close>

definition toLegalPrior :: "action list \<Rightarrow> real list option \<Rightarrow> real list" where
  "toLegalPrior legal priorProbs =
     (let arr = map (\<lambda>a. max 0 (prior_at priorProbs a)) legal;
          s = sum_list arr
      in if s \<le> 1 / 10 ^ 12 then
           (let u = 1 / max 1 (real (length legal)) in map (\<lambda>a. u) legal)
         else map (\<lambda>v. v / s) arr)"

text \<open>The strategy of one pass: regret matching blended with the prior.\<close>

definition rt_strategy :: "real \<Rightarrow> real list \<Rightarrow> real list \<Rightarrow> real list" where
  "rt_strategy priorWeight priorLegal regs =
     (let positive = map (max 0) regs;
          posSum = sum_list positive
      in if posSum \<le> 1 / 10 ^ 12 then priorLegal
         else
           let st = map (\<lambda>v. v / posSum) positive;
               blended = map (\<lambda>(sv, pv). (1 - priorWeight) * sv + priorWeight * pv) (zip st priorLegal);
               z = (if sum_list blended = 0 then 1 else sum_list blended)
           in map (\<lambda>v. v / z) blended)"

text \<open>
  One pass of the \<open>while\<close> loop. \<open>leafEV act\<close> stands for
  \<open>subgameLeafEV(state, hs, act, texture, oppProfile, oppRangeBelief, depthLimit)\<close>, whose
  other arguments do not change during a solve; \<open>rnd\<close> is the sequence of values that
  \<open>Math.random()\<close> returns and \<open>k\<close> counts the values consumed; \<open>iters\<close> is the value of
  \<open>iterations\<close> after its increment.
\<close>

definition rt_pass ::
  "state \<Rightarrow> action list \<Rightarrow> (action \<Rightarrow> real) \<Rightarrow> real \<Rightarrow> real list \<Rightarrow> (nat \<Rightarrow> real) \<Rightarrow>
   nat \<Rightarrow> real list \<times> real list \<times> nat \<Rightarrow> real list \<times> real list \<times> nat" where
  "rt_pass s legal leafEV priorWeight priorLegal rnd iters acc =
     (case acc of (regs, stratSum, k) \<Rightarrow>
        let strategy = rt_strategy priorWeight priorLegal regs;
            util = map (\<lambda>(i, act). leafEV act + (rnd (k + i) - 1 / 2) * (4 / 1000) * max 1 (pot s))
                     (zip [0..<length legal] legal);
            nodeUtil = sum_list (map (\<lambda>(sv, uv). sv * uv) (zip strategy util));
            t = max 1 (real iters);
            alpha = t powr (3 / 2);
            beta = t powr (1 / 2);
            posDisc = alpha / (alpha + 1);
            negDisc = beta / (beta + 2);
            regs' = map (\<lambda>(r, uv). (if uv - nodeUtil \<ge> 0 then r * posDisc else r * negDisc)
                                      + (uv - nodeUtil)) (zip regs util);
            stratSum' = map (\<lambda>(sv, pv). sv + pv) (zip stratSum strategy)
        in (regs', stratSum', k + length legal))"

text \<open>
  The loop runs while the wall clock is inside the budget. \<open>rt_loop n\<close> makes the \<open>n\<close>
  passes that the clock allows, \<open>iters\<close> being the passes made before.
\<close>

fun rt_loop ::
  "nat \<Rightarrow> state \<Rightarrow> action list \<Rightarrow> (action \<Rightarrow> real) \<Rightarrow> real \<Rightarrow> real list \<Rightarrow> (nat \<Rightarrow> real) \<Rightarrow>
   nat \<Rightarrow> real list \<times> real list \<times> nat \<Rightarrow> real list \<times> real list \<times> nat" where
  "rt_loop 0 s legal leafEV priorWeight priorLegal rnd iters acc = acc"
| "rt_loop (Suc n) s legal leafEV priorWeight priorLegal rnd iters acc =
     rt_loop n s legal leafEV priorWeight priorLegal rnd (iters + 1)
       (rt_pass s legal leafEV priorWeight priorLegal rnd (iters + 1) acc)"

text \<open>The array \<open>out\<close> that the solver fills after the loop, before it is rounded.\<close>

definition rt_out :: "action list \<Rightarrow> real list \<Rightarrow> real list \<Rightarrow> real list" where
  "rt_out legal priorLegal stratSum =
     (let total = sum_list (map (max 0) stratSum);
          vals = (if total \<le> 1 / 10 ^ 12 then priorLegal
                  else map (\<lambda>v. max 0 v / total) stratSum)
      in fold (\<lambda>(a, v) out. out[action_index a := v]) (zip legal vals) (replicate 8 0))"

record rt_result =
  probs :: "real list"
  iterations :: nat

text \<open>
  \<open>solveRtSubgameDCFR\<close>, with \<open>n\<close> the number of passes made before the budget expires.
  \<open>rt_average\<close> is the solver up to the filled array \<open>out\<close>; the result holds the
  rounded array. \<open>None\<close> is the source's \<open>null\<close>. The elapsed time in the result is left
  out.
\<close>

definition rt_average ::
  "state \<Rightarrow> action list \<Rightarrow> (action \<Rightarrow> real) \<Rightarrow> real list option \<Rightarrow> real \<Rightarrow> (nat \<Rightarrow> real) \<Rightarrow>
   nat \<Rightarrow> real list" where
  "rt_average s legal leafEV priorProbs priorWeight rnd n =
     (let priorLegal = toLegalPrior legal priorProbs;
          regs0 = map (\<lambda>a. 0) legal;
          stratSum0 = map (\<lambda>a. 0) legal;
          final = rt_loop n s legal leafEV priorWeight priorLegal rnd 0 (regs0, stratSum0, 0)
      in rt_out legal priorLegal (fst (snd final)))"

definition solveRtSubgameDCFR ::
  "state \<Rightarrow> action list \<Rightarrow> (action \<Rightarrow> real) \<Rightarrow> real list option \<Rightarrow> real \<Rightarrow> (nat \<Rightarrow> real) \<Rightarrow>
   nat \<Rightarrow> rt_result option" where
  "solveRtSubgameDCFR s legal leafEV priorProbs priorWeight rnd n =
     (if legal = [] then None
      else Some \<lparr>probs = map (toFixed 6) (rt_average s legal leafEV priorProbs priorWeight rnd n),
                 iterations = n\<rparr>)"

section \<open>The equity estimator (server_fullgame.cjs)\<close>








record strength =
  eq :: real
  samples :: nat
  err :: "string option"



section \<open>The blueprint trainer (scripts/train_blueprint_v1_postflop.cjs)\<close>

text \<open>
  The per-infoset statistics. The arrays have one entry per action
  (\<open>Array(actionNames.length).fill(0)\<close>).
\<close>

record node =
  regrets :: "real list"
  strategySum :: "real list"
  legalSeen :: "bool list"
  visits :: nat

definition fresh_node :: node where
  "fresh_node =
     \<lparr>regrets = replicate 8 0, strategySum = replicate 8 0,
      legalSeen = replicate 8 False, visits = 0\<rparr>"

definition ensureNode :: "(string \<rightharpoonup> node) \<Rightarrow> string \<Rightarrow> node \<times> (string \<rightharpoonup> node)" where
  "ensureNode nodeMap key =
     (case nodeMap key of
        Some nd \<Rightarrow> (nd, nodeMap)
      | None \<Rightarrow> (fresh_node, nodeMap(key \<mapsto> fresh_node)))"

definition currentStrategy :: "node \<Rightarrow> action list \<Rightarrow> real list" where
  "currentStrategy nd legal =
     (let strat0 = replicate 8 (0::real);
          strat1 = fold (\<lambda>a st. st[action_index a := max 0 (regrets nd ! action_index a)]) legal strat0;
          total = fold (\<lambda>a acc. acc + max 0 (regrets nd ! action_index a)) legal 0
      in if total \<le> 1 / 10 ^ 12 then
           (let u = 1 / max 1 (real (length legal))
            in fold (\<lambda>a st. st[action_index a := u]) legal strat1)
         else fold (\<lambda>a st. st[action_index a := st ! action_index a / total]) legal strat1)"

text \<open>
  A visit of \<open>cfr\<close> to an infoset, in two parts. \<open>cfr_enter\<close> is the bookkeeping
  before the children are explored: the visit count, the legal-action marks, the current
  strategy and its accumulation into \<open>strategySum\<close>.
\<close>

definition cfr_enter :: "node \<Rightarrow> action list \<Rightarrow> node \<times> real list" where
  "cfr_enter nd0 legal =
     (let nd1 = nd0\<lparr>visits := visits nd0 + 1\<rparr>;
          nd2 = nd1\<lparr>legalSeen := fold (\<lambda>a seen. seen[action_index a := True]) legal (legalSeen nd1)\<rparr>;
          strategy = currentStrategy nd2 legal;
          nd3 = nd2\<lparr>strategySum :=
                  fold (\<lambda>a ss. ss[action_index a := ss ! action_index a + strategy ! action_index a])
                    legal (strategySum nd2)\<rparr>
      in (nd3, strategy))"

text \<open>
  \<open>cfr_traverser_update\<close> is the traverser's branch: \<open>childUtil a\<close> is the value that
  the recursive call of \<open>cfr\<close> on the child reached by action \<open>a\<close> returned, and \<open>nd\<close> is
  the node as those calls left it. The function takes no iteration number: the source's
  \<open>cfr\<close> has none among its arguments.
\<close>

definition cfr_traverser_update ::
  "node \<Rightarrow> action list \<Rightarrow> real list \<Rightarrow> (action \<Rightarrow> real) \<Rightarrow> node \<times> real" where
  "cfr_traverser_update nd legal strategy childUtil =
     (let util = fold (\<lambda>a ut. ut[action_index a := childUtil a]) legal (replicate 8 0);
          nodeUtil = fold (\<lambda>a acc. acc + strategy ! action_index a * childUtil a) legal 0;
          nd' = nd\<lparr>regrets :=
                  fold (\<lambda>a rs. rs[action_index a := rs ! action_index a + (util ! action_index a - nodeUtil)])
                    legal (regrets nd)\<rparr>
      in (nd', nodeUtil))"

section \<open>Reachable states\<close>

text \<open>
  A session reachable from a freshly dealt hand by any sequence of \<open>applyAction\<close> and
  \<open>advanceStreet\<close> calls.
\<close>

inductive reachable :: "config \<Rightarrow> sess \<Rightarrow> bool" for cfg :: config where
  fresh: "reachable cfg (newHand cfg hSeat hIndex heroCards villCards boardCards sc)"
| action: "reachable cfg ss \<Longrightarrow> reachable cfg (ss\<lparr>state := applyAction cfg (state ss) act\<rparr>)"
| advance: "reachable cfg ss \<Longrightarrow> reachable cfg (advanceStreet ss)"


text \<open>
  Applying a list of actions, each of which must be legal in the state it is applied to;
  \<open>None\<close> when one is not.
\<close>

fun play :: "config \<Rightarrow> state \<Rightarrow> action list \<Rightarrow> state option" where
  "play cfg s [] = Some s"
| "play cfg s (act # acts) =
     (if act \<in> set (legalActions cfg s) then play cfg (applyAction cfg s act) acts else None)"




section \<open>The specification's wording, for comparison with the code\<close>

text \<open>Clamp negative components to 0, then rescale to sum 1.\<close>

definition clamp_then_rescale :: "belief \<Rightarrow> belief" where
  "clamp_then_rescale b =
     \<lparr>weak = max 0 (weak b) / (max 0 (weak b) + max 0 (medium b) + max 0 (strong b)),
      medium = max 0 (medium b) / (max 0 (weak b) + max 0 (medium b) + max 0 (strong b)),
      strong = max 0 (strong b) / (max 0 (weak b) + max 0 (medium b) + max 0 (strong b))\<rparr>"


text \<open>
  Section 4.7: before the current regret is added, a positive accumulated regret is
  multiplied by \<open>t^1.5 / (t^1.5 + 1)\<close> and a negative one by \<open>t^0.5 / (t^0.5 + 2)\<close>.
\<close>

definition dcfr_discounted :: "nat \<Rightarrow> real \<Rightarrow> real" where
  "dcfr_discounted t r =
     (if r > 0 then r * (real t powr (3 / 2) / (real t powr (3 / 2) + 1))
      else if r < 0 then r * (real t powr (1 / 2) / (real t powr (1 / 2) + 2))
      else r)"

section \<open>Example inputs\<close>

definition zero_score :: score where
  "zero_score = \<lparr>wins = 0, losses = 0, ties = 0, net = 0\<rparr>"

definition example_hand :: sess where
  "example_hand =
     newHand default_config Seat0 0 [''As'', ''Qs''] [''Kc'', ''Jd'']
       [''Ah'', ''Kh'', ''2c'', ''9d'', ''5s''] zero_score"

text \<open>The example hand after the small blind folds.\<close>

definition folded_hand :: sess where
  "folded_hand = example_hand\<lparr>state := applyAction default_config (state example_hand) FOLD\<rparr>"

text \<open>A stand-in for the external hand evaluator: every hand gets the same value.\<close>

definition flat_eval :: "card list \<Rightarrow> int" where
  "flat_eval cards = 0"

text \<open>A flop state whose acting seat holds less than \<open>eps\<close> chips and faces no bet.\<close>

definition dust_state :: state where
  "dust_state =
     \<lparr>streetIdx = 1, street = Some ''flop'', pot = 400 - 1 / 10 ^ 10, currentBet = 0,
      commit = (0, 0), stack = (1 / 10 ^ 10, 0), raises = 0, consecutiveChecks = 0,
      acted = (False, False), history = ''ac'', terminal = False, winner = - 1,
      toAct = Seat0\<rparr>"


text \<open>Three raises and a call before the flop.\<close>

definition capped_war :: state where
  "capped_war =
     \<lparr>streetIdx = 0, street = Some ''preflop'', pot = 60, currentBet = 30,
      commit = (30, 30), stack = (170, 170), raises = 3, consecutiveChecks = 0,
      acted = (True, True), history = ''rrrc'', terminal = False, winner = - 1,
      toAct = Seat0\<rparr>"

text \<open>A turn spot with 80 in the pot.\<close>

definition turn_spot :: state where
  "turn_spot =
     \<lparr>streetIdx = 2, street = Some ''turn'', pot = 80, currentBet = 0,
      commit = (0, 0), stack = (160, 160), raises = 0, consecutiveChecks = 0,
      acted = (False, False), history = ''rrckkbc'', terminal = False, winner = - 1,
      toAct = Seat0\<rparr>"

text \<open>An infoset that has accumulated regret 1 for CHECK; children that all return 0.\<close>

definition seasoned_node :: node where
  "seasoned_node = fresh_node\<lparr>regrets := [0, 1, 0, 0, 0, 0, 0, 0]\<rparr>"

definition zero_util :: "action \<Rightarrow> real" where
  "zero_util a = 0"

definition unopened_legal :: "action list" where
  "unopened_legal = [CHECK, BET_HALF, BET_POT, ALL_IN]"

text \<open>A three-way choice, and a random source that always returns one half.\<close>

definition three_way :: "action list" where
  "three_way = [CHECK, BET_HALF, BET_POT]"

definition half_rnd :: "nat \<Rightarrow> real" where
  "half_rnd i = 1 / 2"

text \<open>Three equal thirds, rounded to six decimals.\<close>

definition thirds_result :: rt_result where
  "thirds_result =
     \<lparr>probs = [0, 333333 / 10 ^ 6, 0, 333333 / 10 ^ 6, 333333 / 10 ^ 6, 0, 0, 0],
      iterations = 1\<rparr>"


section \<open>Verified properties\<close>

subsection \<open>Shared lemmas\<close>


lemma sel_upd_other: "sel (other p) (upd p v xs) = sel (other p) xs"
  by (cases p; cases xs) simp_all


lemma action_index_inj: "action_index a = action_index b \<longleftrightarrow> a = b"
  by (cases a; cases b) simp_all

lemma action_index_less: "action_index a < 8"
  by (cases a) simp_all

lemma legalActionsShared_distinct: "distinct (legalActionsShared s maxRaises bigBlind)"
  by (auto simp: legalActionsShared_def Let_def)

subsection \<open>C1: chip conservation\<close>





subsection \<open>C2: the raise counter\<close>




text \<open>
  Nor is a bet or raise with nothing to call capped: once three raises have been called,
  the seat to act may raise again.
\<close>

lemma raise_after_called_raises:
  "play default_config (newHand_state default_config) [RAISE_HALF, RAISE_HALF, RAISE_HALF, CALL]
     = Some capped_war \<and>
   RAISE_HALF \<in> set (legalActions default_config capped_war) \<and>
   raises (applyAction default_config capped_war RAISE_HALF) = 4"
  by code_simp





subsection \<open>C3: regret updates of the blueprint trainer\<close>

lemma fold_add_length:
  "length (fold (\<lambda>b rs. rs[action_index b := rs ! action_index b + f b]) legal rs) = length rs"
  by (induction legal arbitrary: rs) simp_all

lemma fold_add_notin:
  "a \<notin> set legal \<Longrightarrow>
   fold (\<lambda>b rs. rs[action_index b := rs ! action_index b + f b]) legal rs ! action_index a
     = rs ! action_index a"
  by (induction legal arbitrary: rs) (auto simp: action_index_inj)

lemma fold_add_in:
  "distinct legal \<Longrightarrow> a \<in> set legal \<Longrightarrow> action_index a < length rs \<Longrightarrow>
   fold (\<lambda>b rs. rs[action_index b := rs ! action_index b + f b]) legal rs ! action_index a
     = rs ! action_index a + (f a :: real)"
proof (induction legal arbitrary: rs)
  case Nil
  then show ?case by simp
next
  case (Cons b legal)
  show ?case
  proof (cases "a = b")
    case True
    with Cons.prems have "a \<notin> set legal" by simp
    then show ?thesis using True Cons.prems(3) by (simp add: fold_add_notin)
  next
    case False
    with Cons.prems have "a \<in> set legal" "distinct legal" by simp_all
    then show ?thesis using False Cons.prems(3) Cons.IH by (simp add: action_index_inj)
  qed
qed

lemma fold_set_notin:
  "a \<notin> set legal \<Longrightarrow>
   fold (\<lambda>b ut. ut[action_index b := f b]) legal ut ! action_index a = ut ! action_index a"
  by (induction legal arbitrary: ut) (auto simp: action_index_inj)

lemma fold_set_in:
  "a \<in> set legal \<Longrightarrow> action_index a < length ut \<Longrightarrow>
   fold (\<lambda>b ut. ut[action_index b := f b]) legal ut ! action_index a = f a"
proof (induction legal arbitrary: ut)
  case Nil
  then show ?case by simp
next
  case (Cons b legal)
  show ?case
  proof (cases "a \<in> set legal")
    case True
    then show ?thesis using Cons.prems(2) Cons.IH by simp
  next
    case False
    with Cons.prems(1) have "a = b" by simp
    with False Cons.prems(2) show ?thesis by (simp add: fold_set_notin)
  qed
qed

lemma fold_acc_sum:
  "fold (\<lambda>a acc. acc + g a) legal (acc0 :: real) = acc0 + sum_list (map g legal)"
  by (induction legal arbitrary: acc0) simp_all

text \<open>
  C3 (amended). The blueprint trainer applies no discount. At a traverser infoset, on
  whatever iteration, the node value is the strategy-weighted sum of the child values,
  and each legal action's accumulated regret, positive or negative, is kept as it is and
  the regret difference \<open>u(a) - node_util\<close> is added to it.
\<close>

theorem trainer_regret_update_undiscounted:
  assumes len: "length (regrets nd) = 8" and dis: "distinct legal" and mem: "a \<in> set legal"
  shows "snd (cfr_traverser_update nd legal strategy childUtil)
           = sum_list (map (\<lambda>b. strategy ! action_index b * childUtil b) legal) \<and>
         regrets (fst (cfr_traverser_update nd legal strategy childUtil)) ! action_index a
           = regrets nd ! action_index a
             + (childUtil a - snd (cfr_traverser_update nd legal strategy childUtil))"
proof -
  let ?util = "fold (\<lambda>b ut. ut[action_index b := childUtil b]) legal (replicate 8 0)"
  let ?nodeUtil = "fold (\<lambda>b acc. acc + strategy ! action_index b * childUtil b) legal 0"
  have u: "?util ! action_index a = childUtil a"
    using mem action_index_less [of a] by (simp add: fold_set_in)
  have la: "action_index a < length (regrets nd)"
    using len action_index_less [of a] by simp
  have r: "fold (\<lambda>b rs. rs[action_index b := rs ! action_index b + (?util ! action_index b - ?nodeUtil)])
             legal (regrets nd) ! action_index a
           = regrets nd ! action_index a + (?util ! action_index a - ?nodeUtil)"
    using dis mem la by (rule fold_add_in)
  have n: "snd (cfr_traverser_update nd legal strategy childUtil) = ?nodeUtil"
    by (simp add: cfr_traverser_update_def Let_def)
  have g: "regrets (fst (cfr_traverser_update nd legal strategy childUtil))
             = fold (\<lambda>b rs. rs[action_index b := rs ! action_index b + (?util ! action_index b - ?nodeUtil)])
                 legal (regrets nd)"
    by (simp add: cfr_traverser_update_def Let_def)
  have s: "?nodeUtil = sum_list (map (\<lambda>b. strategy ! action_index b * childUtil b) legal)"
    by (simp add: fold_acc_sum)
  show ?thesis
    unfolding n g r u using s by simp
qed

lemma unopened_legal_is_legal: "legalActions default_config turn_spot = unopened_legal"
  by code_simp

theorem trainer_regret_update_undiscounted_witness:
  "length (regrets seasoned_node) = 8 \<and> distinct unopened_legal \<and> CHECK \<in> set unopened_legal \<and>
   regrets (fst (cfr_traverser_update seasoned_node unopened_legal
                   (snd (cfr_enter seasoned_node unopened_legal)) zero_util)) ! action_index CHECK
     = regrets seasoned_node ! action_index CHECK
       + (zero_util CHECK - snd (cfr_traverser_update seasoned_node unopened_legal
                                   (snd (cfr_enter seasoned_node unopened_legal)) zero_util))"
proof -
  have l: "length (regrets seasoned_node) = 8" by (simp add: seasoned_node_def)
  have d: "distinct unopened_legal" by (simp add: unopened_legal_def)
  have m: "CHECK \<in> set unopened_legal" by (simp add: unopened_legal_def)
  from l d m trainer_regret_update_undiscounted [OF l d m] show ?thesis by blast
qed

text \<open>
  With discounting, an accumulated regret of 1 and a regret difference of 0 would leave
  \<open>1/2\<close> on iteration 1; the trainer leaves 1.
\<close>

theorem trainer_discount_counterexample:
  "regrets seasoned_node ! action_index CHECK = 1 \<and>
   regrets (fst (cfr_traverser_update (fst (cfr_enter seasoned_node unopened_legal)) unopened_legal
                   (snd (cfr_enter seasoned_node unopened_legal)) zero_util)) ! action_index CHECK = 1 \<and>
   dcfr_discounted 1 (regrets seasoned_node ! action_index CHECK)
     + (zero_util CHECK - snd (cfr_traverser_update (fst (cfr_enter seasoned_node unopened_legal)) unopened_legal
                                 (snd (cfr_enter seasoned_node unopened_legal)) zero_util)) = 1 / 2"
  by (simp add: cfr_traverser_update_def cfr_enter_def currentStrategy_def seasoned_node_def
      fresh_node_def unopened_legal_def zero_util_def dcfr_discounted_def Let_def)

subsection \<open>C4: legal actions\<close>

text \<open>
  C4 (amended). For every non-terminal state: if \<open>to_call \<le> \<epsilon>\<close> the legal actions
  are CHECK and, exactly when the acting seat's stack exceeds \<open>\<epsilon>\<close>, also BET_HALF,
  BET_POT, ALL_IN postflop or RAISE_HALF, RAISE_POT, ALL_IN preflop; otherwise they are
  FOLD and CALL, RAISE_HALF and RAISE_POT iff \<open>stack > to_call + \<epsilon>\<close> and
  \<open>raises < MAX_RAISES\<close>, and ALL_IN iff \<open>stack > to_call + \<epsilon>\<close>; nothing else is emitted.
\<close>

theorem legal_actions_characterization:
  "\<not> terminal s \<Longrightarrow>
     (let p = toAct s; tc = toCall_of s p; stk = sel p (stack s)
      in if tc \<le> eps then
           set (legalActions cfg s) =
             {CHECK} \<union> (if stk > eps
                          then (if streetIdx s = 0 then {RAISE_HALF, RAISE_POT, ALL_IN}
                                else {BET_HALF, BET_POT, ALL_IN})
                          else {})
         else
           set (legalActions cfg s) =
             {FOLD, CALL}
             \<union> (if stk > tc + eps \<and> raises s < MAX_RAISES cfg then {RAISE_HALF, RAISE_POT} else {})
             \<union> (if stk > tc + eps then {ALL_IN} else {}))"
  by (auto simp: legalActions_def legalActionsShared_def toCall_of_def Let_def)

theorem legal_actions_characterization_witness:
  "\<not> terminal (newHand_state default_config) \<and>
   set (legalActions default_config (newHand_state default_config))
     = {FOLD, CALL, RAISE_HALF, RAISE_POT, ALL_IN}"
  using legal_actions_characterization [of "newHand_state default_config" default_config]
  by (simp add: newHand_state_def default_config_def toCall_of_def eps_def Let_def insert_commute)

text \<open>
  With the thresholds \<open>stack > 0\<close> and \<open>stack > to_call\<close> the characterization fails:
  a postflop seat that faces no bet and holds a positive stack below \<open>\<epsilon>\<close> may only check.
\<close>

theorem legal_actions_counterexample:
  "\<not> terminal dust_state \<and>
   toCall_of dust_state (toAct dust_state) \<le> eps \<and>
   sel (toAct dust_state) (stack dust_state) > 0 \<and>
   streetIdx dust_state \<noteq> 0 \<and>
   BET_HALF \<notin> set (legalActions default_config dust_state) \<and>
   legalActions default_config dust_state = [CHECK]"
  by (simp add: dust_state_def legalActions_def legalActionsShared_def toCall_of_def eps_def Let_def)

subsection \<open>C5: realtime subgame output\<close>

lemma sum_list_div: "sum_list (map (\<lambda>v. f v / c) xs) = sum_list (map f xs) / (c::real)"
  by (induction xs) (simp_all add: add_divide_distrib)

lemma sum_list_div_id: "sum_list (map (\<lambda>v. v / c) xs) = sum_list xs / (c::real)"
  by (induction xs) (simp_all add: add_divide_distrib)

lemma sum_list_const: "sum_list (map (\<lambda>a. c) xs) = real (length xs) * (c::real)"
  by (induction xs) (simp_all add: algebra_simps)

lemma sum_list_upd:
  "i < length xs \<Longrightarrow> sum_list (xs[i := v]) = sum_list xs - xs ! i + (v::real)"
proof (induction xs arbitrary: i)
  case Nil
  then show ?case by simp
next
  case (Cons x xs)
  then show ?case by (cases i) simp_all
qed

lemma nonneg_le_sum:
  "(\<And>y. y \<in> set xs \<Longrightarrow> 0 \<le> y) \<Longrightarrow> x \<in> set xs \<Longrightarrow> x \<le> (sum_list xs :: real)"
proof (induction xs)
  case Nil
  then show ?case by simp
next
  case (Cons z zs)
  have zs: "0 \<le> sum_list zs"
    using Cons.prems(1) by (intro sum_list_nonneg) simp
  have z: "0 \<le> z" using Cons.prems(1) by simp
  show ?case
  proof (cases "x = z")
    case True
    with zs show ?thesis by simp
  next
    case False
    with Cons.prems(2) have "x \<in> set zs" by simp
    with Cons.IH Cons.prems(1) have "x \<le> sum_list zs" by simp
    with z show ?thesis by simp
  qed
qed

text \<open>The prior projected on the legal actions is a distribution.\<close>

lemma toLegalPrior_length: "length (toLegalPrior legal pp) = length legal"
  by (simp add: toLegalPrior_def Let_def)

lemma toLegalPrior_nonneg: "v \<in> set (toLegalPrior legal pp) \<Longrightarrow> 0 \<le> v"
proof -
  assume v: "v \<in> set (toLegalPrior legal pp)"
  let ?arr = "map (\<lambda>a. max 0 (prior_at pp a)) legal"
  have s0: "0 \<le> sum_list ?arr" by (intro sum_list_nonneg) auto
  show ?thesis
  proof (cases "sum_list ?arr \<le> 1 / 10 ^ 12")
    case True
    with v show ?thesis by (auto simp: toLegalPrior_def Let_def)
  next
    case False
    with v s0 show ?thesis by (auto simp: toLegalPrior_def Let_def)
  qed
qed

lemma toLegalPrior_sum: "legal \<noteq> [] \<Longrightarrow> sum_list (toLegalPrior legal pp) = 1"
proof -
  assume ne: "legal \<noteq> []"
  let ?arr = "map (\<lambda>a. max 0 (prior_at pp a)) legal"
  show ?thesis
  proof (cases "sum_list ?arr \<le> 1 / 10 ^ 12")
    case True
    from ne have "1 \<le> length legal" by (cases legal) simp_all
    then have n1: "1 \<le> real (length legal)" by simp
    then have m: "max 1 (real (length legal)) = real (length legal)"
      by (rule max_absorb2)
    have nz: "real (length legal) \<noteq> 0" using ne by simp
    have "real (length legal) * (1 / max 1 (real (length legal))) = 1"
      unfolding m using nz by simp
    with True show ?thesis
      by (simp only: toLegalPrior_def Let_def sum_list_const if_True)
  next
    case False
    then have nz: "sum_list ?arr \<noteq> 0" by auto
    have "toLegalPrior legal pp = map (\<lambda>v. v / sum_list ?arr) ?arr"
      using False by (simp only: toLegalPrior_def Let_def if_False)
    then show ?thesis using nz by (simp only: sum_list_div_id) simp
  qed
qed

text \<open>The loop keeps one regret and one strategy sum per legal action.\<close>

lemma rt_strategy_length:
  "length priorLegal = n \<Longrightarrow> length regs = n \<Longrightarrow> length (rt_strategy w priorLegal regs) = n"
  by (simp add: rt_strategy_def Let_def)

lemma rt_pass_lengths:
  assumes "length priorLegal = length legal" "length regs = length legal" "length ss = length legal"
  shows "case rt_pass s legal leafEV w priorLegal rnd it (regs, ss, k) of
           (regs', ss', k') \<Rightarrow> length regs' = length legal \<and> length ss' = length legal"
  using assms rt_strategy_length [of priorLegal "length legal" regs w]
  by (simp add: rt_pass_def Let_def)

lemma rt_loop_lengths:
  assumes "length priorLegal = length legal"
  shows "length regs = length legal \<Longrightarrow> length ss = length legal \<Longrightarrow>
         length (fst (snd (rt_loop n s legal leafEV w priorLegal rnd it (regs, ss, k)))) = length legal"
proof (induction n arbitrary: regs ss k it)
  case 0
  then show ?case by simp
next
  case (Suc n)
  obtain regs' ss' k' where p: "rt_pass s legal leafEV w priorLegal rnd (it + 1) (regs, ss, k) = (regs', ss', k')"
    by (cases "rt_pass s legal leafEV w priorLegal rnd (it + 1) (regs, ss, k)") auto
  with rt_pass_lengths [OF assms Suc.prems, of s leafEV w rnd "it + 1" k]
  have "length regs' = length legal" "length ss' = length legal" by simp_all
  from Suc.IH [OF this] p show ?case by simp
qed

text \<open>Writing values at the indices of distinct actions.\<close>

lemma fill_length:
  "length (fold (\<lambda>(a, v) out. out[action_index a := v]) avs out) = length out"
  by (induction avs arbitrary: out) auto

lemma fill_notin:
  "a \<notin> fst ` set avs \<Longrightarrow>
   fold (\<lambda>(b, v) out. out[action_index b := v]) avs out ! action_index a = out ! action_index a"
proof (induction avs arbitrary: out)
  case Nil
  then show ?case by simp
next
  case (Cons bv avs)
  obtain b v where bv: "bv = (b, v)" by (cases bv)
  with Cons.prems have "a \<noteq> b" "a \<notin> fst ` set avs" by auto
  with Cons.IH [of "out[action_index b := v]"] bv show ?case
    by (simp add: action_index_inj)
qed

lemma list_all_upd: "list_all P xs \<Longrightarrow> P v \<Longrightarrow> list_all P (xs[i := v])"
proof -
  assume a: "list_all P xs" "P v"
  have "set (xs[i := v]) \<subseteq> insert v (set xs)" by (rule set_update_subset_insert)
  with a show ?thesis by (auto simp: list_all_iff)
qed

lemma fill_nonneg:
  "list_all (\<lambda>x. 0 \<le> x) out \<Longrightarrow> list_all (\<lambda>v. 0 \<le> v) (map snd avs) \<Longrightarrow>
   list_all (\<lambda>x. 0 \<le> (x::real)) (fold (\<lambda>(b, v) out. out[action_index b := v]) avs out)"
proof (induction avs arbitrary: out)
  case Nil
  then show ?case by simp
next
  case (Cons bv avs)
  obtain b v where bv: "bv = (b, v)" by (cases bv)
  with Cons.prems(2) have v: "0 \<le> v" and r: "list_all (\<lambda>v. 0 \<le> v) (map snd avs)" by simp_all
  from Cons.prems(1) v have "list_all (\<lambda>x. 0 \<le> x) (out[action_index b := v])"
    by (rule list_all_upd)
  from Cons.IH [OF this r] bv show ?case by simp
qed

lemma fill_sum:
  "distinct legal \<Longrightarrow> length vals = length legal \<Longrightarrow> length out = 8 \<Longrightarrow>
   (\<And>a. a \<in> set legal \<Longrightarrow> out ! action_index a = 0) \<Longrightarrow>
   sum_list (fold (\<lambda>(b, v) out. out[action_index b := v]) (zip legal vals) out)
     = sum_list out + (sum_list vals :: real)"
proof (induction legal arbitrary: vals out)
  case Nil
  then show ?case by simp
next
  case (Cons a legal)
  from Cons.prems(2) obtain v vs where vals: "vals = v # vs" and l: "length vs = length legal"
    by (cases vals) simp_all
  let ?out = "out[action_index a := v]"
  have lo: "length ?out = 8" using Cons.prems(3) by simp
  have z: "\<And>b. b \<in> set legal \<Longrightarrow> ?out ! action_index b = 0"
  proof -
    fix b assume b: "b \<in> set legal"
    with Cons.prems(1) have "b \<noteq> a" by auto
    then have "action_index a \<noteq> action_index b" by (simp add: action_index_inj)
    then show "?out ! action_index b = 0" using Cons.prems(4) [of b] b by simp
  qed
  from Cons.prems(1) have d: "distinct legal" by simp
  have s: "sum_list ?out = sum_list out + v"
    using Cons.prems(3) Cons.prems(4) [of a] action_index_less [of a]
    by (simp add: sum_list_upd)
  from Cons.IH [OF d l lo z] s vals show ?case by simp
qed

text \<open>The filled array is a distribution that vanishes off the legal actions.\<close>

lemma rt_out_props:
  assumes ne: "legal \<noteq> []" and dis: "distinct legal"
    and lp: "length priorLegal = length legal"
    and pn: "list_all (\<lambda>v. 0 \<le> v) priorLegal"
    and ps: "sum_list priorLegal = 1"
    and ls: "length ss = length legal"
  shows "length (rt_out legal priorLegal ss) = 8"
    and "a \<notin> set legal \<Longrightarrow> rt_out legal priorLegal ss ! action_index a = 0"
    and "list_all (\<lambda>x. 0 \<le> x) (rt_out legal priorLegal ss)"
    and "sum_list (rt_out legal priorLegal ss) = 1"
proof -
  let ?total = "sum_list (map (max 0) ss)"
  let ?vals = "if ?total \<le> 1 / 10 ^ 12 then priorLegal else map (\<lambda>v. max 0 v / ?total) ss"
  have out: "rt_out legal priorLegal ss
               = fold (\<lambda>(a, v) out. out[action_index a := v]) (zip legal ?vals) (replicate 8 0)"
    by (simp add: rt_out_def Let_def)
  have t0: "0 \<le> ?total" by (intro sum_list_nonneg) auto
  have lv: "length ?vals = length legal" using lp ls by simp
  have vn: "list_all (\<lambda>v. 0 \<le> v) ?vals"
    using pn t0 by (auto simp: list_all_iff)
  have vs: "sum_list ?vals = 1"
  proof (cases "?total \<le> 1 / 10 ^ 12")
    case True
    with ps show ?thesis by simp
  next
    case False
    then have "?total \<noteq> 0" by auto
    moreover have "sum_list (map (\<lambda>v. max 0 v / ?total) ss) = ?total / ?total"
      by (rule sum_list_div)
    ultimately show ?thesis using False by simp
  qed
  show "length (rt_out legal priorLegal ss) = 8"
    unfolding out by (simp add: fill_length)
  show "rt_out legal priorLegal ss ! action_index a = 0" if "a \<notin> set legal"
  proof -
    have "fst ` set (zip legal ?vals) \<subseteq> set legal"
      by (auto dest: set_zip_leftD)
    with that have "a \<notin> fst ` set (zip legal ?vals)" by blast
    then show ?thesis
      unfolding out using action_index_less [of a] by (simp add: fill_notin)
  qed
  show "list_all (\<lambda>x. 0 \<le> x) (rt_out legal priorLegal ss)"
    unfolding out
  proof (rule fill_nonneg)
    show "list_all ((\<le>) 0) (replicate 8 (0::real))" by (simp add: list_all_iff)
    have "set (map snd (zip legal ?vals)) \<subseteq> set ?vals"
      by (auto dest: set_zip_rightD)
    with vn show "list_all ((\<le>) 0) (map snd (zip legal ?vals))"
      unfolding list_all_iff by blast
  qed
  have "sum_list (fold (\<lambda>(a, v) out. out[action_index a := v]) (zip legal ?vals) (replicate 8 0))
          = sum_list (replicate 8 (0::real)) + sum_list ?vals"
    using dis lv
  proof (rule fill_sum)
    show "length (replicate 8 (0::real)) = 8" by simp
    show "replicate 8 (0::real) ! action_index b = 0" for b
      using action_index_less [of b] by simp
  qed
  then show "sum_list (rt_out legal priorLegal ss) = 1"
    unfolding out using vs by (simp add: sum_list_replicate)
qed

text \<open>Rounding to \<open>d\<close> decimals moves a nonnegative value by at most half a unit.\<close>

lemma toFixed_zero: "toFixed d 0 = 0"
  by (simp add: toFixed_def)

lemma toFixed_nonneg: "0 \<le> x \<Longrightarrow> 0 \<le> toFixed d x"
proof -
  assume x: "0 \<le> x"
  then have "0 \<le> \<bar>x\<bar> * 10 ^ d + 1 / 2" by simp
  then have "0 \<le> \<lfloor>\<bar>x\<bar> * 10 ^ d + 1 / 2\<rfloor>" by simp
  then have "0 \<le> (of_int \<lfloor>\<bar>x\<bar> * 10 ^ d + 1 / 2\<rfloor> :: real) / 10 ^ d" by simp
  moreover have "0 \<le> sgn x" using x by (simp add: sgn_if)
  ultimately show ?thesis unfolding toFixed_def by (rule mult_nonneg_nonneg [rotated])
qed

lemma toFixed_le_one: "0 \<le> x \<Longrightarrow> x \<le> 1 \<Longrightarrow> toFixed d x \<le> 1"
proof (cases "x = 0")
  case True
  then show ?thesis by (simp add: toFixed_zero)
next
  case False
  assume x: "0 \<le> x" "x \<le> 1"
  with False have px: "0 < x" by simp
  have "x * 10 ^ d \<le> 1 * 10 ^ d" using x(2) by (intro mult_right_mono) simp_all
  then have "x * 10 ^ d + 1 / 2 < 10 ^ d + 1" by linarith
  then have "x * 10 ^ d + 1 / 2 < of_int (10 ^ d) + 1" by simp
  then have "\<lfloor>x * 10 ^ d + 1 / 2\<rfloor> \<le> 10 ^ d" by (simp only: floor_le_iff)
  then have "(of_int \<lfloor>x * 10 ^ d + 1 / 2\<rfloor> :: real) \<le> of_int (10 ^ d)" by (simp only: of_int_le_iff)
  then have "(of_int \<lfloor>x * 10 ^ d + 1 / 2\<rfloor> :: real) / 10 ^ d \<le> 1" by (simp add: divide_le_eq)
  with px show ?thesis by (simp add: toFixed_def)
qed

lemma toFixed_error: "0 \<le> x \<Longrightarrow> \<bar>toFixed d x - x\<bar> \<le> (1 / 2) / 10 ^ d"
proof (cases "x = 0")
  case True
  then show ?thesis by (simp add: toFixed_zero)
next
  case False
  assume "0 \<le> x"
  with False have px: "0 < x" by simp
  let ?y = "x * 10 ^ d"
  let ?t = "of_int \<lfloor>?y + 1 / 2\<rfloor> :: real"
  have up: "?t \<le> ?y + 1 / 2" by (rule of_int_floor_le)
  have lo: "?y + 1 / 2 < ?t + 1" by linarith
  from up lo have "\<bar>?t - ?y\<bar> \<le> 1 / 2" by linarith
  then have "\<bar>?t - ?y\<bar> / 10 ^ d \<le> (1 / 2) / 10 ^ d"
    by (intro divide_right_mono) simp_all
  moreover have "?t / 10 ^ d - x = (?t - ?y) / 10 ^ d"
    by (simp add: diff_divide_distrib)
  ultimately have "\<bar>?t / 10 ^ d - x\<bar> \<le> (1 / 2) / 10 ^ d" by simp
  with px show ?thesis by (simp add: toFixed_def)
qed

lemma sum_list_error:
  "list_all (\<lambda>x. \<bar>f x - x\<bar> \<le> e) xs \<Longrightarrow>
   \<bar>sum_list (map f xs) - sum_list xs\<bar> \<le> real (length xs) * (e::real)"
proof (induction xs)
  case Nil
  then show ?case by simp
next
  case (Cons x xs)
  then have a: "\<bar>f x - x\<bar> \<le> e" and b: "\<bar>sum_list (map f xs) - sum_list xs\<bar> \<le> real (length xs) * e"
    by simp_all
  have "\<bar>sum_list (map f (x # xs)) - sum_list (x # xs)\<bar>
          = \<bar>(f x - x) + (sum_list (map f xs) - sum_list xs)\<bar>" by simp
  also have "\<dots> \<le> \<bar>f x - x\<bar> + \<bar>sum_list (map f xs) - sum_list xs\<bar>" by (rule abs_triangle_ineq)
  also have "\<dots> \<le> e + real (length xs) * e" using a b by simp
  finally show ?case by (simp add: algebra_simps)
qed

text \<open>
  C5 (amended). For every input with a non-empty, duplicate-free legal-action list and
  any number of passes made before the time budget expires, the realtime subgame solver
  returns a vector of length 8: the average strategy (or the prior, if no strategy mass
  accumulated), which sums to 1, with each entry rounded to six decimals. The returned
  entries lie in \<open>[0, 1]\<close>, are 0 at non-legal action indices, and sum to 1 within
  \<open>4e-6\<close>.
\<close>

theorem rt_subgame_output_rounded:
  assumes ne: "legal \<noteq> []" and dis: "distinct legal"
  shows "\<exists>r. solveRtSubgameDCFR s legal leafEV priorProbs w rnd n = Some r \<and>
           probs r = map (toFixed 6) (rt_average s legal leafEV priorProbs w rnd n) \<and>
           sum_list (rt_average s legal leafEV priorProbs w rnd n) = 1 \<and>
           length (probs r) = 8 \<and>
           (\<forall>a. a \<notin> set legal \<longrightarrow> probs r ! action_index a = 0) \<and>
           (\<forall>p \<in> set (probs r). 0 \<le> p \<and> p \<le> 1) \<and>
           \<bar>sum_list (probs r) - 1\<bar> \<le> 4 / 10 ^ 6"
proof -
  let ?prior = "toLegalPrior legal priorProbs"
  let ?ss = "fst (snd (rt_loop n s legal leafEV w ?prior rnd 0
                         (map (\<lambda>a. 0) legal, map (\<lambda>a. 0) legal, 0)))"
  let ?avg = "rt_average s legal leafEV priorProbs w rnd n"
  let ?r = "\<lparr>probs = map (toFixed 6) ?avg, iterations = n\<rparr>"
  have avg: "?avg = rt_out legal ?prior ?ss"
    by (simp add: rt_average_def Let_def)
  have lp: "length ?prior = length legal" by (rule toLegalPrior_length)
  have pn: "list_all (\<lambda>v. 0 \<le> v) ?prior"
    by (auto simp: list_all_iff dest: toLegalPrior_nonneg)
  have ps: "sum_list ?prior = 1" using ne by (rule toLegalPrior_sum)
  have ls: "length ?ss = length legal"
    by (rule rt_loop_lengths [OF lp]) simp_all
  note out = rt_out_props [OF ne dis lp pn ps ls]
  have len: "length ?avg = 8" unfolding avg by (rule out(1))
  have nn: "list_all (\<lambda>x. 0 \<le> x) ?avg" unfolding avg by (rule out(3))
  have one: "sum_list ?avg = 1" unfolding avg by (rule out(4))
  have zero: "?avg ! action_index a = 0" if "a \<notin> set legal" for a
    unfolding avg using that by (rule out(2))
  have le1: "x \<le> 1" if "x \<in> set ?avg" for x
  proof -
    have "x \<le> sum_list ?avg"
      using nn that by (intro nonneg_le_sum) (auto simp: list_all_iff)
    with one show ?thesis by simp
  qed
  have sol: "solveRtSubgameDCFR s legal leafEV priorProbs w rnd n = Some ?r"
    using ne by (simp add: solveRtSubgameDCFR_def)
  have p1: "length (probs ?r) = 8" using len by simp
  have p2: "\<forall>a. a \<notin> set legal \<longrightarrow> probs ?r ! action_index a = 0"
  proof (intro allI impI)
    fix a assume "a \<notin> set legal"
    then have "?avg ! action_index a = 0" by (rule zero)
    then show "probs ?r ! action_index a = 0"
      using len action_index_less [of a] by (simp add: toFixed_zero)
  qed
  have p3: "\<forall>p \<in> set (probs ?r). 0 \<le> p \<and> p \<le> 1"
  proof
    fix p assume "p \<in> set (probs ?r)"
    then obtain x where x: "x \<in> set ?avg" and p: "p = toFixed 6 x" by auto
    from x nn have "0 \<le> x" by (simp add: list_all_iff)
    moreover from x have "x \<le> 1" by (rule le1)
    ultimately show "0 \<le> p \<and> p \<le> 1"
      unfolding p by (simp add: toFixed_nonneg toFixed_le_one)
  qed
  have "list_all (\<lambda>x. \<bar>toFixed 6 x - x\<bar> \<le> (1 / 2) / 10 ^ 6) ?avg"
    unfolding list_all_iff
  proof
    fix x assume "x \<in> set ?avg"
    with nn have "0 \<le> x" by (simp add: list_all_iff)
    then show "\<bar>toFixed 6 x - x\<bar> \<le> (1 / 2) / 10 ^ 6" by (rule toFixed_error)
  qed
  then have "\<bar>sum_list (map (toFixed 6) ?avg) - sum_list ?avg\<bar> \<le> real (length ?avg) * ((1 / 2) / 10 ^ 6)"
    by (rule sum_list_error)
  then have p4: "\<bar>sum_list (probs ?r) - 1\<bar> \<le> 4 / 10 ^ 6"
    unfolding one len by simp
  have p0: "probs ?r = map (toFixed 6) ?avg" by simp
  from sol p0 one p1 p2 p3 p4 show ?thesis by blast
qed

lemma replicate8: "replicate 8 (0::real) = [0, 0, 0, 0, 0, 0, 0, 0]"
  by (simp add: numeral_eq_Suc)

lemma toFixed_third: "toFixed 6 (1 / 3) = 333333 / 10 ^ 6"
  by code_simp

lemma thirds_average:
  "rt_average turn_spot three_way zero_util None (65 / 100) half_rnd 1
     = [0, 1 / 3, 0, 1 / 3, 1 / 3, 0, 0, 0]"
  by (simp add: rt_average_def rt_out_def rt_pass_def rt_strategy_def
      toLegalPrior_def prior_at_def three_way_def zero_util_def half_rnd_def turn_spot_def
      Let_def replicate8 eval_nat_numeral)

lemma thirds_solved:
  "solveRtSubgameDCFR turn_spot three_way zero_util None (65 / 100) half_rnd 1 = Some thirds_result"
  unfolding solveRtSubgameDCFR_def thirds_average thirds_result_def
  by (simp add: toFixed_zero toFixed_third three_way_def)

theorem rt_subgame_output_rounded_witness:
  "three_way \<noteq> [] \<and> distinct three_way \<and>
   solveRtSubgameDCFR turn_spot three_way zero_util None (65 / 100) half_rnd 1 = Some thirds_result \<and>
   sum_list (rt_average turn_spot three_way zero_util None (65 / 100) half_rnd 1) = 1 \<and>
   length (probs thirds_result) = 8 \<and>
   probs thirds_result ! action_index FOLD = 0 \<and>
   \<bar>sum_list (probs thirds_result) - 1\<bar> \<le> 4 / 10 ^ 6"
proof -
  have ne: "three_way \<noteq> []" by (simp add: three_way_def)
  have dis: "distinct three_way" by (simp add: three_way_def)
  have nf: "FOLD \<notin> set three_way" by (simp add: three_way_def)
  obtain r where r: "solveRtSubgameDCFR turn_spot three_way zero_util None (65 / 100) half_rnd 1 = Some r"
    and s1: "sum_list (rt_average turn_spot three_way zero_util None (65 / 100) half_rnd 1) = 1"
    and l8: "length (probs r) = 8"
    and z: "\<forall>a. a \<notin> set three_way \<longrightarrow> probs r ! action_index a = 0"
    and b: "\<bar>sum_list (probs r) - 1\<bar> \<le> 4 / 10 ^ 6"
    using rt_subgame_output_rounded [OF ne dis, of turn_spot zero_util None "65 / 100" half_rnd 1]
    by blast
  from r thirds_solved have rr: "r = thirds_result" by (simp only: option.inject)
  from z nf have zf: "probs r ! action_index FOLD = 0" by blast
  from ne dis thirds_solved s1 l8 zf b show ?thesis unfolding rr by (intro conjI)
qed

text \<open>
  The returned entries need not sum to 1: three equal thirds come back as
  \<open>0.333333\<close> each.
\<close>

theorem rt_subgame_sum_counterexample:
  "three_way \<noteq> [] \<and>
   solveRtSubgameDCFR turn_spot three_way zero_util None (65 / 100) half_rnd 1 = Some thirds_result \<and>
   sum_list (probs thirds_result) = 999999 / 10 ^ 6 \<and>
   sum_list (probs thirds_result) \<noteq> 1"
proof -
  have "sum_list (probs thirds_result) = 999999 / 10 ^ 6"
    by (simp add: thirds_result_def)
  then show ?thesis using thirds_solved by (simp add: three_way_def)
qed

subsection \<open>C6: belief normalization\<close>

lemma normalize_nonneg:
  "0 \<le> weak (normalizeRangeBelief b) \<and> 0 \<le> medium (normalizeRangeBelief b) \<and> 0 \<le> strong (normalizeRangeBelief b)"
  by (simp add: normalizeRangeBelief_def Let_def eps_def)

lemma normalize_sum:
  "weak (normalizeRangeBelief b) + medium (normalizeRangeBelief b) + strong (normalizeRangeBelief b) = 1"
proof (cases "max 0 (weak b) + max 0 (medium b) + max 0 (strong b) \<le> eps")
  case True
  then show ?thesis by (simp add: normalizeRangeBelief_def Let_def)
next
  case False
  then have "max 0 (weak b) + max 0 (medium b) + max 0 (strong b) \<noteq> 0"
    by (auto simp: eps_def)
  with False show ?thesis
    by (simp add: normalizeRangeBelief_def Let_def add_divide_distrib [symmetric])
qed

lemma shiftBelief_sum:
  "weak (shiftBelief b act tc) + medium (shiftBelief b act tc) + strong (shiftBelief b act tc)
     = weak b + medium b + strong b"
  by (simp add: shiftBelief_def Let_def)

lemma normalize_is_clamp_then_rescale:
  assumes "weak b + medium b + strong b = 1"
  shows "normalizeRangeBelief b = clamp_then_rescale b"
proof -
  have "max 0 (weak b) + max 0 (medium b) + max 0 (strong b) \<ge> 1"
    using assms by linarith
  then have "\<not> max 0 (weak b) + max 0 (medium b) + max 0 (strong b) \<le> eps"
    by (simp add: eps_def)
  then show ?thesis
    by (simp add: normalizeRangeBelief_def clamp_then_rescale_def Let_def)
qed

lemma ensure_length: "2 \<le> length (rangeBeliefs (ensureRangeBeliefs ss))"
  by (simp add: ensureRangeBeliefs_def Let_def)

lemma seat_nat_less: "seat_nat p < 2"
  by (cases p) (simp_all add: seat_nat_def)

lemma ensure_nth:
  "rangeBeliefs (ensureRangeBeliefs ss) ! seat_nat p =
     normalizeRangeBelief ((if length (rangeBeliefs ss) < 2 then [initialRangeBelief, initialRangeBelief] else rangeBeliefs ss) ! seat_nat p)"
proof (cases "length (rangeBeliefs ss) < 2")
  case True
  then show ?thesis
    by (cases p) (simp_all add: ensureRangeBeliefs_def Let_def seat_nat_def)
next
  case False
  then have "0 < length (rangeBeliefs ss)" "1 < length (rangeBeliefs ss)" by linarith+
  with False show ?thesis
    by (cases p) (simp_all add: ensureRangeBeliefs_def Let_def seat_nat_def)
qed

text \<open>
  C6. After an opponent-range belief update, for either seat and any observed action,
  the seat's belief has nonnegative components \<open>weak\<close>, \<open>medium\<close>, \<open>strong\<close> that
  sum to 1 (within \<open>1e-9\<close>), and it is the shifted belief with its negative components
  clamped to 0 and then rescaled to sum 1.
\<close>

theorem belief_normalized_after_update:
  "let old = rangeBeliefs (ensureRangeBeliefs ss) ! seat_nat p;
       b = rangeBeliefs (updateRangeBeliefFromAction ss p act toCallBefore) ! seat_nat p
   in 0 \<le> weak b \<and> 0 \<le> medium b \<and> 0 \<le> strong b \<and>
      \<bar>weak b + medium b + strong b - 1\<bar> \<le> 1 / 10 ^ 9 \<and>
      b = clamp_then_rescale (shiftBelief old act toCallBefore)"
proof -
  let ?old = "rangeBeliefs (ensureRangeBeliefs ss) ! seat_nat p"
  let ?sh = "shiftBelief ?old act toCallBefore"
  have len: "seat_nat p < length (rangeBeliefs (ensureRangeBeliefs ss))"
    using ensure_length [of ss] seat_nat_less [of p] by linarith
  have new: "rangeBeliefs (updateRangeBeliefFromAction ss p act toCallBefore) ! seat_nat p
               = normalizeRangeBelief ?sh"
    using len by (simp add: updateRangeBeliefFromAction_def Let_def)
  have "weak ?old + medium ?old + strong ?old = 1"
    by (simp only: ensure_nth normalize_sum)
  then have "weak ?sh + medium ?sh + strong ?sh = 1"
    by (simp only: shiftBelief_sum)
  then have eq: "normalizeRangeBelief ?sh = clamp_then_rescale ?sh"
    by (rule normalize_is_clamp_then_rescale)
  show ?thesis
    unfolding Let_def new
    using normalize_nonneg [of ?sh] normalize_sum [of ?sh] eq by simp
qed

theorem belief_normalized_after_update_witness:
  "rangeBeliefs (updateRangeBeliefFromAction (updateRangeBeliefFromAction example_hand Seat1 FOLD 4)
       Seat1 FOLD 4) ! seat_nat Seat1
     = \<lparr>weak = 74 / 115, medium = 41 / 115, strong = 0\<rparr>"
proof -
  let ?ss = "updateRangeBeliefFromAction example_hand Seat1 FOLD 4"
  have e: "clamp_then_rescale (shiftBelief (rangeBeliefs (ensureRangeBeliefs ?ss) ! seat_nat Seat1) FOLD 4)
             = \<lparr>weak = 74 / 115, medium = 41 / 115, strong = 0\<rparr>"
    by code_simp
  from belief_normalized_after_update [of ?ss Seat1 FOLD 4]
  have "rangeBeliefs (updateRangeBeliefFromAction ?ss Seat1 FOLD 4) ! seat_nat Seat1
          = clamp_then_rescale (shiftBelief (rangeBeliefs (ensureRangeBeliefs ?ss) ! seat_nat Seat1) FOLD 4)"
    by (simp only: Let_def)
  with e show ?thesis by (simp only:)
qed

subsection \<open>C7: equity estimator\<close>





subsection \<open>C8: terminal hands\<close>

text \<open>
  C8. A terminal state has no legal action, and settling a terminal hand a second time
  returns the first call's result and leaves the session score (wins, losses, ties, net)
  as the first call left it.
\<close>

theorem terminal_closed_settle_idempotent:
  "terminal (state ss) \<Longrightarrow>
     legalActions cfg (state ss) = [] \<and>
     (let (r1, ss1) = settleTerminal cfg evalHand ss;
          (r2, ss2) = settleTerminal cfg evalHand ss1
      in r2 = r1 \<and> score ss2 = score ss1 \<and> ss2 = ss1)"
proof
  assume "terminal (state ss)"
  then show "legalActions cfg (state ss) = []"
    by (simp add: legalActions_def legalActionsShared_def)
next
  show "let (r1, ss1) = settleTerminal cfg evalHand ss;
          (r2, ss2) = settleTerminal cfg evalHand ss1
      in r2 = r1 \<and> score ss2 = score ss1 \<and> ss2 = ss1"
  proof (cases "if resolved ss then lastResult ss else None")
    case None
    then show ?thesis
      by (simp add: settleTerminal_def Let_def split: if_splits)
  next
    case (Some r)
    then show ?thesis
      by (simp add: settleTerminal_def Let_def split: if_splits)
  qed
qed

theorem terminal_closed_settle_idempotent_witness:
  "terminal (state folded_hand) \<and>
   legalActions default_config (state folded_hand) = [] \<and>
   human_payoff (fst (settleTerminal default_config flat_eval folded_hand)) = - 1 \<and>
   (let (r1, ss1) = settleTerminal default_config flat_eval folded_hand;
        (r2, ss2) = settleTerminal default_config flat_eval ss1
    in r2 = r1 \<and> score ss2 = score ss1 \<and> ss2 = ss1)"
proof -
  have t: "terminal (state folded_hand)"
    by (simp add: folded_hand_def applyAction_def Let_def)
  have p: "human_payoff (fst (settleTerminal default_config flat_eval folded_hand)) = - 1"
    by code_simp
  from t p terminal_closed_settle_idempotent [OF t, of default_config flat_eval]
  show ?thesis by simp
qed

subsection \<open>C9: conditioned equity\<close>



subsection \<open>C10: infoset keying\<close>

lemma js_min_Num: "js_min (Num a) (Num b) = Num (min a b)"
  by (simp add: js_min_def min_def)

lemma js_max_Num: "js_max (Num a) (Num b) = Num (max a b)"
  by (simp add: js_max_def max_def)

lemma hsBand_Num:
  "hsBand (Num a) = Num (of_int (max 0 (min 9 \<lfloor>max 0 (min (999999 / 1000000) a) * 10\<rfloor>)))"
  by (simp add: hsBand_def js_or_zero_def js_min_Num js_max_Num Let_def min_def max_def)

lemma hsBand_range: "\<exists>n. 0 \<le> n \<and> n \<le> 9 \<and> hsBand hs = Num (of_int n)"
proof (cases hs)
  case (Num a)
  show ?thesis
    unfolding Num hsBand_Num
    by (rule exI [of _ "max 0 (min 9 \<lfloor>max 0 (min (999999 / 1000000) a) * 10\<rfloor>)"]) simp
next
  case PosInf
  have "hsBand PosInf = Num (of_int 9)"
    by (simp add: hsBand_def js_or_zero_def js_min_def js_max_def Let_def)
  with PosInf show ?thesis by (intro exI [of _ 9]) simp
next
  case NegInf
  have "hsBand NegInf = Num (of_int 0)"
    by (simp add: hsBand_def js_or_zero_def js_min_def js_max_def Let_def)
  with NegInf show ?thesis by (intro exI [of _ 0]) simp
next
  case NaN
  have "hsBand NaN = Num (of_int 0)"
    by (simp add: hsBand_def js_or_zero_def js_min_def js_max_def Let_def)
  with NaN show ?thesis by (intro exI [of _ 0]) simp
qed

lemma sprBand_bands: "sprBand spr \<in> set sprBands"
  by (simp add: sprBand_def sprBands_def)

lemma sprBand_nonfinite: "\<not> js_isFinite spr \<Longrightarrow> sprBand spr = ''8_plus''"
  by (simp add: sprBand_def)

lemma splitOn_no_sep: "c \<notin> set a \<Longrightarrow> splitOn c a = [a]"
  by (induction a) auto

lemma splitOn_append: "c \<notin> set a \<Longrightarrow> splitOn c (a @ c # rest) = a # splitOn c rest"
  by (induction a) auto

lemma digit_char_is_digit: "d < 10 \<Longrightarrow> is_digit (digit_char d)"
proof -
  assume "d < 10"
  then have "d \<in> {0, 1, 2, 3, 4, 5, 6, 7, 8, 9}" by auto
  then show ?thesis
    by (auto simp: is_digit_def digit_char_def)
qed

lemma show_nat_digits: "list_all is_digit (show_nat n) \<and> show_nat n \<noteq> []"
proof (induction n rule: show_nat.induct)
  case (1 n)
  show ?case
  proof (cases "n < 10")
    case True
    then show ?thesis
      by (subst show_nat.simps, subst show_nat.simps) (simp add: digit_char_is_digit)
  next
    case False
    with 1 have ih: "list_all is_digit (show_nat (n div 10))" by simp
    have "is_digit (digit_char (n mod 10))" by (rule digit_char_is_digit) simp
    with ih False show ?thesis
      by (subst show_nat.simps, subst (2) show_nat.simps) simp
  qed
qed

lemma show_nat_small: "n < 10 \<Longrightarrow> show_nat n = [digit_char n]"
  by (subst show_nat.simps) simp

lemma is_digit_no_bar: "is_digit ch \<Longrightarrow> ch \<noteq> CHR ''|''"
  by (auto simp: is_digit_def)

lemma digits_no_bar: "list_all is_digit r \<Longrightarrow> CHR ''|'' \<notin> set r"
  by (induction r) (auto dest: is_digit_no_bar)

lemma key_wf_fields:
  assumes st: "st \<in> set streets"
    and pos: "pos \<in> set [''IP'', ''OOP'']"
    and bits: "length bits = 4" "set bits \<subseteq> set ''01''"
    and band: "band \<in> set sprBands"
    and bet: "bet \<in> set [''unopened'', ''facingBet'']"
    and r: "r \<noteq> []" "list_all is_digit r"
    and h: "length h = 1" "list_all is_digit h"
  shows "key_wf (st @ ''|'' @ pos @ ''|tex='' @ bits @ ''|spr='' @ band @ ''|'' @ bet @
                 ''|r='' @ r @ ''|hs='' @ h)"
proof -
  have n1: "CHR ''|'' \<notin> set st" using st by (auto simp: streets_def)
  have n2: "CHR ''|'' \<notin> set pos" using pos by auto
  have n3: "CHR ''|'' \<notin> set bits" using bits(2) by auto
  have n4: "CHR ''|'' \<notin> set band" using band by (auto simp: sprBands_def)
  have n5: "CHR ''|'' \<notin> set bet" using bet by auto
  have n6: "CHR ''|'' \<notin> set r" using r(2) by (rule digits_no_bar)
  have n7: "CHR ''|'' \<notin> set h" using h(2) by (rule digits_no_bar)
  have s7: "splitOn CHR ''|'' (''hs='' @ h) = [''hs='' @ h]"
    using n7 by (intro splitOn_no_sep) simp
  have s6: "splitOn CHR ''|'' ((''r='' @ r) @ CHR ''|'' # (''hs='' @ h)) = [''r='' @ r, ''hs='' @ h]"
    using n6 by (subst splitOn_append) (simp_all only: s7, simp)
  have s5: "splitOn CHR ''|'' (bet @ CHR ''|'' # (''r='' @ r) @ CHR ''|'' # (''hs='' @ h))
              = [bet, ''r='' @ r, ''hs='' @ h]"
    using n5 by (subst splitOn_append) (simp_all only: s6, simp)
  have s4: "splitOn CHR ''|'' ((''spr='' @ band) @ CHR ''|'' # bet @ CHR ''|'' # (''r='' @ r) @ CHR ''|'' # (''hs='' @ h))
              = [''spr='' @ band, bet, ''r='' @ r, ''hs='' @ h]"
    using n4 by (subst splitOn_append) (simp_all only: s5, simp)
  have s3: "splitOn CHR ''|'' ((''tex='' @ bits) @ CHR ''|'' # (''spr='' @ band) @ CHR ''|'' # bet @ CHR ''|'' # (''r='' @ r) @ CHR ''|'' # (''hs='' @ h))
              = [''tex='' @ bits, ''spr='' @ band, bet, ''r='' @ r, ''hs='' @ h]"
    using n3 by (subst splitOn_append) (simp_all only: s4, simp)
  have s2: "splitOn CHR ''|'' (pos @ CHR ''|'' # (''tex='' @ bits) @ CHR ''|'' # (''spr='' @ band) @ CHR ''|'' # bet @ CHR ''|'' # (''r='' @ r) @ CHR ''|'' # (''hs='' @ h))
              = [pos, ''tex='' @ bits, ''spr='' @ band, bet, ''r='' @ r, ''hs='' @ h]"
    using n2 by (subst splitOn_append) (simp_all only: s3, simp)
  have s1: "splitOn CHR ''|'' (st @ CHR ''|'' # pos @ CHR ''|'' # (''tex='' @ bits) @ CHR ''|'' # (''spr='' @ band) @ CHR ''|'' # bet @ CHR ''|'' # (''r='' @ r) @ CHR ''|'' # (''hs='' @ h))
              = [st, pos, ''tex='' @ bits, ''spr='' @ band, bet, ''r='' @ r, ''hs='' @ h]"
    using n1 by (subst splitOn_append) (simp_all only: s2, simp)
  have shape: "st @ ''|'' @ pos @ ''|tex='' @ bits @ ''|spr='' @ band @ ''|'' @ bet @ ''|r='' @ r @ ''|hs='' @ h
      = st @ CHR ''|'' # pos @ CHR ''|'' # (''tex='' @ bits) @ CHR ''|'' # (''spr='' @ band) @ CHR ''|'' # bet @ CHR ''|'' # (''r='' @ r) @ CHR ''|'' # (''hs='' @ h)"
    by simp
  show ?thesis
    unfolding key_wf_def shape s1
    using assms by simp
qed

lemma number_string_int:
  "0 \<le> m \<Longrightarrow> m < 10 ^ 21 \<Longrightarrow> number_string (Num (of_int m)) = Some (show_nat (nat m))"
proof -
  assume m: "0 \<le> m" "m < 10 ^ 21"
  have "\<bar>(of_int m :: real)\<bar> = of_int m" using m(1) by simp
  moreover have "(of_int m :: real) < of_int (10 ^ 21)" using m(2) by (simp only: of_int_less_iff)
  ultimately have "\<bar>(of_int m :: real)\<bar> < 10 ^ 21" by simp
  with m(1) show ?thesis by simp
qed

lemma street_name_streets: "(case street_name i of Some n \<Rightarrow> n | None \<Rightarrow> ''flop'') \<in> set streets"
proof (cases "i < length streets")
  case True
  then show ?thesis by (simp add: street_name_def)
next
  case False
  then show ?thesis by (simp add: street_name_def streets_def)
qed

lemma resolveStreet_streets: "street_ok s \<Longrightarrow> resolveStreet s \<in> set streets"
  using street_name_streets [of "streetIdx s"]
  by (auto simp: street_ok_def resolveStreet_def split: option.splits)

lemma textureBits_bits: "length (textureBits t) = 4 \<and> set (textureBits t) \<subseteq> set ''01''"
  by (simp add: textureBits_def bit_string_def)

lemma positionLabelHU_labels: "positionLabelHU p \<in> set [''IP'', ''OOP'']"
  by (simp add: positionLabelHU_def)

lemma applyAction_street: "street (applyAction cfg s act) = street s"
  by (simp add: applyAction_def Let_def)

lemma reachable_street_ok: "reachable cfg ss \<Longrightarrow> street_ok (state ss)"
proof (induction rule: reachable.induct)
  case (fresh hSeat hIndex heroCards villCards boardCards sc)
  show ?case by (simp add: street_ok_def newHand_def newHand_state_def streets_def)
next
  case (action ss act)
  then show ?case by (simp add: street_ok_def applyAction_street)
next
  case (advance ss)
  show ?case
    by (simp add: street_ok_def advanceStreet_def enforceBoardInvariant_def street_name_def Let_def)
qed

text \<open>
  C10. Infoset keying is total on degenerate numbers. For every hand strength, NaN,
  negative, above 1 or non-finite included, \<open>hsBand\<close> returns an integer in \<open>[0, 9]\<close>;
  for every SPR, \<open>sprBand\<close> returns one of the five band strings, \<open>8_plus\<close> for a
  non-finite one; and for every hand strength and SPR, \<open>buildInfosetKey\<close> on a state
  whose street name is unset or one of the four streets (and whose raise counter prints
  in plain digits) returns a key of the canonical form.
\<close>

theorem infoset_keying_total:
  "(\<exists>n. 0 \<le> n \<and> n \<le> 9 \<and> hsBand hs = Num (of_int n)) \<and>
   sprBand spr \<in> set sprBands \<and>
   (\<not> js_isFinite spr \<longrightarrow> sprBand spr = ''8_plus'') \<and>
   (street_ok s \<and> raises s < 10 ^ 21 \<longrightarrow>
      (\<exists>k. buildInfosetKey s stateBoard player hs sprArg tex = Some k \<and> key_wf k))"
proof (intro conjI impI)
  show "\<exists>n. 0 \<le> n \<and> n \<le> 9 \<and> hsBand hs = Num (of_int n)" by (rule hsBand_range)
  show "sprBand spr \<in> set sprBands" by (rule sprBand_bands)
  show "sprBand spr = ''8_plus''" if "\<not> js_isFinite spr" using that by (rule sprBand_nonfinite)
  show "\<exists>k. buildInfosetKey s stateBoard player hs sprArg tex = Some k \<and> key_wf k"
    if ok: "street_ok s \<and> raises s < 10 ^ 21"
  proof -
    obtain n where n: "0 \<le> n" "n \<le> 9" "hsBand hs = Num (of_int n)"
      using hsBand_range by blast
    have hstr: "number_string (hsBand hs) = Some [digit_char (nat n)]"
      using n by (simp add: number_string_int show_nat_small)
    have hdig: "list_all is_digit [digit_char (nat n)]"
      using n by (simp add: digit_char_is_digit)
    have rstr: "number_string (Num (of_int (max 0 (raises s)))) = Some (show_nat (nat (max 0 (raises s))))"
      using ok by (intro number_string_int) simp_all
    let ?bet = "if max 0 (currentBet s - sel player (commit s)) > eps then ''facingBet'' else ''unopened''"
    let ?spr = "case sprArg of
                  None \<Rightarrow> (if pot s > 0 then Num (sel player (stack s) / max 1 (pot s)) else PosInf)
                | Some v \<Rightarrow> v"
    let ?tex = "case tex of Some t \<Rightarrow> t
                | None \<Rightarrow> texture_of (case stateBoard of Some cards \<Rightarrow> cards | None \<Rightarrow> [])"
    let ?k = "resolveStreet s @ ''|'' @ positionLabelHU player @ ''|tex='' @ textureBits ?tex @
              ''|spr='' @ sprBand ?spr @ ''|'' @ ?bet @ ''|r='' @
              show_nat (nat (max 0 (raises s))) @ ''|hs='' @ [digit_char (nat n)]"
    have build: "buildInfosetKey s stateBoard player hs sprArg tex = Some ?k"
      unfolding buildInfosetKey_def Let_def rstr hstr by simp
    have "key_wf ?k"
    proof (rule key_wf_fields)
      show "resolveStreet s \<in> set streets" using ok by (simp add: resolveStreet_streets)
      show "positionLabelHU player \<in> set [''IP'', ''OOP'']" by (rule positionLabelHU_labels)
      show "length (textureBits ?tex) = 4" by (simp add: textureBits_bits)
      show "set (textureBits ?tex) \<subseteq> set ''01''" using textureBits_bits by blast
      show "sprBand ?spr \<in> set sprBands" by (rule sprBand_bands)
      show "?bet \<in> set [''unopened'', ''facingBet'']" by simp
      show "show_nat (nat (max 0 (raises s))) \<noteq> []" by (simp add: show_nat_digits)
      show "list_all is_digit (show_nat (nat (max 0 (raises s))))" by (simp add: show_nat_digits)
      show "length [digit_char (nat n)] = 1" by simp
      show "list_all is_digit [digit_char (nat n)]" by (rule hdig)
    qed
    with build show ?thesis by blast
  qed
qed

theorem infoset_keying_total_witness:
  "(\<exists>n. 0 \<le> n \<and> n \<le> 9 \<and> hsBand NaN = Num (of_int n)) \<and>
   sprBand PosInf = ''8_plus'' \<and>
   buildInfosetKey (newHand_state default_config) None Seat1 NaN (Some PosInf) None
     = Some ''preflop|IP|tex=0000|spr=8_plus|unopened|r=0|hs=0'' \<and>
   key_wf ''preflop|IP|tex=0000|spr=8_plus|unopened|r=0|hs=0''"
proof -
  have k: "buildInfosetKey (newHand_state default_config) None Seat1 NaN (Some PosInf) None
     = Some ''preflop|IP|tex=0000|spr=8_plus|unopened|r=0|hs=0''"
    by code_simp
  have ok: "street_ok (newHand_state default_config) \<and> raises (newHand_state default_config) < 10 ^ 21"
    by (simp add: street_ok_def newHand_state_def streets_def)
  have nf: "\<not> js_isFinite PosInf" by simp
  note inst = infoset_keying_total [of NaN PosInf "newHand_state default_config" None Seat1
      "Some PosInf" None]
  have a: "\<exists>n. 0 \<le> n \<and> n \<le> 9 \<and> hsBand NaN = Num (of_int n)"
    using inst by (rule conjunct1)
  have b: "sprBand PosInf = ''8_plus''"
    using inst nf by blast
  obtain k' where k': "buildInfosetKey (newHand_state default_config) None Seat1 NaN (Some PosInf) None = Some k'"
      "key_wf k'"
    using inst ok by blast
  from k'(1) k have kk: "k' = ''preflop|IP|tex=0000|spr=8_plus|unopened|r=0|hs=0''"
    by (simp only: option.inject)
  have c: "key_wf ''preflop|IP|tex=0000|spr=8_plus|unopened|r=0|hs=0''"
    using k'(2) unfolding kk .
  from a b k c show ?thesis by (intro conjI)
qed

end
